theory Spec2Isabelle
  imports Main "HOL-Library.Sublist"
begin

section \<open>The staged pass pipeline of \<^verbatim>\<open>dpcomp/src/compiler/compiler.cpp\<close>\<close>

text \<open>
  The development embeds \<^verbatim>\<open>PassManagerStage\<close>, \<^verbatim>\<open>PassManagerSchedule\<close> and
  \<^verbatim>\<open>CompilerContextImpl::run\<close>. Conventions:
  \<^item> a \<^verbatim>\<open>PassManagerStage *\<close> is the index of the stage in the schedule's array
    (\<open>nat option\<close>, \<open>None\<close> for \<^verbatim>\<open>nullptr\<close>): the stages are owned by the array and
    the pointers only ever refer to its elements;
  \<^item> an \<^verbatim>\<open>mlir::StringAttr\<close> is a \<open>string\<close> (attributes are uniqued in the context,
    so \<^verbatim>\<open>==\<close> compares contents), a nullable one a \<open>string option\<close>; an
    \<^verbatim>\<open>mlir::ArrayAttr\<close> of marker names is a \<open>string list option\<close>, so that the
    \<^verbatim>\<open>cast<mlir::StringAttr>\<close> of every element is the identity;
  \<^item> an \<^verbatim>\<open>llvm::StringRef\<close> is an address and a length into an explicit store of
    characters, because the constructor keys its table on \<^verbatim>\<open>name.data()\<close>;
  \<^item> every \<^verbatim>\<open>assert\<close> of the source is checked and is a \<open>fault\<close> of the model;
    an access the language leaves undefined is the fault \<open>Undefined_behaviour\<close>;
  \<^item> the do-while loop of \<^verbatim>\<open>PassManagerSchedule::run\<close> may run forever, so it is
    a \<^theory_text>\<open>partial_function\<close> in the option monad: \<open>None\<close> is "does not return".
\<close>

subsection \<open>Results, diagnostics, the module\<close>

datatype LogicalResult = Success | Failure

definition failed :: "LogicalResult \<Rightarrow> bool" where
  "failed r = (r = Failure)"

datatype DiagnosticSeverity = Note | Warning | Error | Remark

datatype Diagnostic =
  Diagnostic (getSeverity: DiagnosticSeverity) (str: string) (getNotes: "Diagnostic list")

text \<open>
  The module: its contents are opaque (\<open>'ir\<close>); the attribute holding the jump markers
  is the one part of it the scheduler reads and writes.
\<close>

record 'ir ModuleOp =
  body :: 'ir
  jump_markers :: "string list option"

text \<open>
  Modelled from the spec: \<^verbatim>\<open>plier::get_pipeline_jump_markers\<close> and
  \<^verbatim>\<open>plier::remove_pipeline_jump_marker\<close> (declared in
  \<^verbatim>\<open>plier/transforms/pipeline_utils.hpp\<close>) are not among the sources. The spec describes
  the marker channel as a mapping from marker name to presence on the representation's
  root, read by the executor and cleared of the matched name. Reading returns the array
  attribute (absent when no marker was ever written); clearing a name removes its
  presence and leaves every other name; clearing the null name clears nothing.
\<close>

definition get_pipeline_jump_markers :: "'ir ModuleOp \<Rightarrow> string list option" where
  "get_pipeline_jump_markers m = jump_markers m"

definition remove_pipeline_jump_marker :: "'ir ModuleOp \<Rightarrow> string option \<Rightarrow> 'ir ModuleOp" where
  "remove_pipeline_jump_marker m name =
     (case name of
        None \<Rightarrow> m
      | Some n \<Rightarrow> m\<lparr>jump_markers := map_option (removeAll n) (jump_markers m)\<rparr>)"

subsection \<open>Settings, context and pass manager\<close>

type_synonym raw_ostream = nat

text \<open>
  \<^verbatim>\<open>plier::CompilerContext::Settings\<close> is declared in \<^verbatim>\<open>plier/compiler/compiler.hpp\<close>,
  which is not among the sources: the records have the fields the constructor of a
  stage reads. A stream is a handle.
\<close>

record IRPrintingSettings =
  printBefore :: "string list"
  printAfter :: "string list"
  out :: raw_ostream

record Settings =
  verify :: bool
  passStatistics :: bool
  passTimings :: bool
  irDumpStderr :: bool
  irPrinting :: "IRPrintingSettings option"

record MLIRContext =
  multithreading :: bool

text \<open>
  What a pass manager does to a module when it runs: the result, the diagnostics its
  passes emit (in order), and the module as the passes left it. The passes themselves
  are external.
\<close>

type_synonym 'ir pipeline = "'ir ModuleOp \<Rightarrow> LogicalResult \<times> Diagnostic list \<times> 'ir ModuleOp"

text \<open>
  A request for IR printing, as the source makes it: \<^verbatim>\<open>pm.enableIRPrinting()\<close> with
  MLIR's defaults, or the call with two predicates on the pass (only its name is read),
  three flags and a stream.
\<close>

datatype IRPrinting =
  IRPrintingDefault
  | IRPrintingFiltered
      (shouldPrintBeforePass: "string \<Rightarrow> bool")
      (shouldPrintAfterPass: "string \<Rightarrow> bool")
      (printModuleScope: bool)
      (printAfterOnlyOnChange: bool)
      (printAfterOnlyOnFailure: bool)
      (printer_out: raw_ostream)

text \<open>
  The passes a request prints the IR for. The request with MLIR's defaults is the one
  \<^verbatim>\<open>irDumpStderr\<close> makes, which dumps every pass's output (it takes the predicates
  that hold of every pass); the other request prints where the predicate it was given
  holds.
\<close>

fun prints_before :: "IRPrinting \<Rightarrow> string \<Rightarrow> bool" where
  "prints_before IRPrintingDefault pass_name = True"
| "prints_before (IRPrintingFiltered before after scope on_change on_failure stream) pass_name =
     before pass_name"

fun prints_after :: "IRPrinting \<Rightarrow> string \<Rightarrow> bool" where
  "prints_after IRPrintingDefault pass_name = True"
| "prints_after (IRPrintingFiltered before after scope on_change on_failure stream) pass_name =
     after pass_name"

record 'ir PassManager =
  verifier :: bool
  statistics :: bool
  timing :: bool
  printing :: "IRPrinting list"
  pipeline :: "'ir pipeline"

definition PassManager_new :: "'ir PassManager" where
  "PassManager_new =
     \<lparr>verifier = True, statistics = False, timing = False, printing = [],
      pipeline = (\<lambda>m. (Success, [], m))\<rparr>"

definition PassManager_run :: "'ir PassManager \<Rightarrow> 'ir pipeline" where
  "PassManager_run p m = pipeline p m"

subsection \<open>\<^verbatim>\<open>PassManagerStage\<close>\<close>

datatype fault =
  Stage_name_empty
  | Stage_name_registered
  | Jump_name_empty
  | Jump_target_unknown
  | Null_stage
  | Next_stage_already_set
  | Undefined_behaviour

record 'ir PassManagerStage =
  pm :: "'ir PassManager"
  jumps :: "(string \<times> nat) list"
  next_stage :: "nat option"

definition consume_front :: "string \<Rightarrow> string \<Rightarrow> string" where
  "consume_front pre s =
     (if take (length pre) s = pre then drop (length pre) s else s)"

text \<open>The local \<^verbatim>\<open>Checker\<close>: \<^verbatim>\<open>operator()\<close> on the name of the pass.\<close>

definition Checker :: "string list \<Rightarrow> string \<Rightarrow> bool" where
  "Checker names pass_name =
     (let name = consume_front ''`anonymous-namespace'::'' pass_name;
          name = consume_front ''{anonymous}::'' name
      in name \<in> set names)"

text \<open>
  The constructor. \<open>init_func\<close> is given the pass manager to add the stage's passes;
  it is modelled by the pipeline it installs. The context is passed by reference, so
  the constructor returns it.
\<close>

definition PassManagerStage_new ::
  "MLIRContext \<Rightarrow> Settings \<Rightarrow> 'ir pipeline \<Rightarrow> MLIRContext \<times> 'ir PassManagerStage" where
  "PassManagerStage_new ctx settings init_func =
     (let pm0 = PassManager_new\<lparr>verifier := verify settings\<rparr>;
          pm1 = (if passStatistics settings then pm0\<lparr>statistics := True\<rparr> else pm0);
          pm2 = (if passTimings settings then pm1\<lparr>timing := True\<rparr> else pm1);
          ctx1 = (if irDumpStderr settings then ctx\<lparr>multithreading := False\<rparr> else ctx);
          pm3 = (if irDumpStderr settings
                 then pm2\<lparr>printing := printing pm2 @ [IRPrintingDefault]\<rparr> else pm2);
          ctx2 = (case irPrinting settings of
                    None \<Rightarrow> ctx1
                  | Some p \<Rightarrow> ctx1\<lparr>multithreading := False\<rparr>);
          pm4 = (case irPrinting settings of
                   None \<Rightarrow> pm3
                 | Some p \<Rightarrow>
                     pm3\<lparr>printing := printing pm3 @
                       [IRPrintingFiltered (Checker (printBefore p)) (Checker (printAfter p))
                          True True False (out p)]\<rparr>);
          pm5 = pm4\<lparr>pipeline := init_func\<rparr>
      in (ctx2, \<lparr>pm = pm5, jumps = [], next_stage = None\<rparr>))"

definition add_jump ::
  "'ir PassManagerStage \<Rightarrow> string \<Rightarrow> nat option \<Rightarrow> fault + 'ir PassManagerStage" where
  "add_jump s name stage =
     (if name = [] then Inl Jump_name_empty
      else case stage of
             None \<Rightarrow> Inl Null_stage
           | Some t \<Rightarrow> Inr (s\<lparr>jumps := jumps s @ [(name, t)]\<rparr>))"

text \<open>The inner loop of \<^verbatim>\<open>get_jump\<close>: one declared edge against every candidate.\<close>

fun match_names :: "string \<times> nat \<Rightarrow> string list \<Rightarrow> (nat option \<times> string option) option" where
  "match_names it [] = None"
| "match_names it (name # names) =
     (if fst it = name then Some (Some (snd it), Some name) else match_names it names)"

text \<open>The outer loop: the declared edges, in the order \<^verbatim>\<open>add_jump\<close> appended them.\<close>

fun scan_jumps :: "(string \<times> nat) list \<Rightarrow> string list \<Rightarrow> nat option \<times> string option" where
  "scan_jumps [] names = (None, None)"
| "scan_jumps (it # its) names =
     (case match_names it names of
        Some found \<Rightarrow> found
      | None \<Rightarrow> scan_jumps its names)"

definition get_jump ::
  "'ir PassManagerStage \<Rightarrow> string list option \<Rightarrow> nat option \<times> string option" where
  "get_jump s names =
     (case names of
        None \<Rightarrow> (None, None)
      | Some ns \<Rightarrow> scan_jumps (jumps s) ns)"

definition set_next_stage ::
  "'ir PassManagerStage \<Rightarrow> nat option \<Rightarrow> fault + 'ir PassManagerStage" where
  "set_next_stage s stage =
     (if next_stage s \<noteq> None then Inl Next_stage_already_set
      else case stage of
             None \<Rightarrow> Inl Null_stage
           | Some t \<Rightarrow> Inr (s\<lparr>next_stage := Some t\<rparr>))"

definition get_next_stage :: "'ir PassManagerStage \<Rightarrow> nat option" where
  "get_next_stage s = next_stage s"

definition Stage_run :: "'ir PassManagerStage \<Rightarrow> 'ir pipeline" where
  "Stage_run s op = PassManager_run (pm s) op"

subsection \<open>Names of the pipeline description\<close>

text \<open>
  An \<^verbatim>\<open>llvm::StringRef\<close> is a pointer and a length; the characters live in a store
  that the constructor only reads.
\<close>

type_synonym store = "nat \<Rightarrow> char"

record StringRef =
  Data :: nat
  Length :: nat

definition StringRef_data :: "StringRef \<Rightarrow> nat" where
  "StringRef_data r = Data r"

definition StringRef_empty :: "StringRef \<Rightarrow> bool" where
  "StringRef_empty r = (Length r = 0)"

definition StringRef_str :: "store \<Rightarrow> StringRef \<Rightarrow> string" where
  "StringRef_str mem r = map mem [Data r ..< Data r + Length r]"

text \<open>\<^verbatim>\<open>mlir::StringAttr::get(&ctx, jump)\<close>: the attribute with the characters of \<open>jump\<close>.\<close>

definition StringAttr_get :: "store \<Rightarrow> StringRef \<Rightarrow> string" where
  "StringAttr_get mem r = StringRef_str mem r"

subsection \<open>\<^verbatim>\<open>PassManagerSchedule\<close>: construction\<close>

record 'ir StageDesc =
  desc_name :: StringRef
  desc_jumps :: "StringRef list"
  desc_stage :: "'ir PassManagerStage"

text \<open>
  The locals of the constructor's callback: the context (by reference),
  \<^verbatim>\<open>stages_temp\<close>, and \<^verbatim>\<open>stages_map\<close>, an
  \<^verbatim>\<open>std::unordered_map<const void *, PassManagerStage *>\<close> kept as an association
  list from addresses to stage indices.
\<close>

record 'ir Construction =
  mlir_context :: MLIRContext
  stages_temp :: "'ir StageDesc list"
  stages_map :: "(nat \<times> nat) list"

definition map_count :: "(nat \<times> nat) list \<Rightarrow> nat \<Rightarrow> nat" where
  "map_count m k = (case map_of m k of None \<Rightarrow> 0 | Some v \<Rightarrow> 1)"

definition map_insert :: "(nat \<times> nat) list \<Rightarrow> nat \<Rightarrow> nat \<Rightarrow> (nat \<times> nat) list" where
  "map_insert m k v = (if map_count m k = 0 then m @ [(k, v)] else m)"

definition map_find :: "(nat \<times> nat) list \<Rightarrow> nat \<Rightarrow> nat option" where
  "map_find m k = map_of m k"

text \<open>
  One call of the \<^verbatim>\<open>add_stage\<close> lambda. A stage pointer taken here is the position
  of the stage in \<^verbatim>\<open>stages_temp\<close>, which is its position in the final array.
  \<^verbatim>\<open>stages_temp.back()\<close> on an empty vector is undefined.
\<close>

definition add_stage ::
  "Settings \<Rightarrow> 'ir Construction \<Rightarrow> StringRef \<times> StringRef list \<times> 'ir pipeline
   \<Rightarrow> fault + 'ir Construction" where
  "add_stage settings c call =
     (case call of (name, jump_names, pm_init_func) \<Rightarrow>
        if StringRef_empty name then Inl Stage_name_empty
        else if stages_map c \<noteq> [] \<and> stages_temp c = [] then Inl Undefined_behaviour
        else
          let prev_stage = (if stages_map c = [] then None
                            else Some (length (stages_temp c) - 1));
              made = PassManagerStage_new (mlir_context c) settings pm_init_func;
              temp = stages_temp c @
                       [\<lparr>desc_name = name, desc_jumps = jump_names, desc_stage = snd made\<rparr>];
              back = length temp - 1
          in if map_count (stages_map c) (StringRef_data name) \<noteq> 0
             then Inl Stage_name_registered
             else
               let smap = map_insert (stages_map c) (StringRef_data name) back
               in (case prev_stage of
                     None \<Rightarrow>
                       Inr \<lparr>mlir_context = fst made, stages_temp = temp, stages_map = smap\<rparr>
                   | Some p \<Rightarrow>
                       (case set_next_stage (desc_stage (temp ! p)) (Some back) of
                          Inl e \<Rightarrow> Inl e
                        | Inr s' \<Rightarrow>
                            Inr \<lparr>mlir_context = fst made,
                                 stages_temp = list_update temp p ((temp ! p)\<lparr>desc_stage := s'\<rparr>),
                                 stages_map = smap\<rparr>)))"

text \<open>
  Modelled from the spec: \<^verbatim>\<open>PipelineRegistry::populate_pass_manager\<close> and the sink
  it passes are not among the sources. The spec gives the pipeline description as a
  sequence of (stage name, jump-target names, pass list) entries, one stage built per
  entry, in order: the sink calls \<^verbatim>\<open>add_stage\<close> once per entry.
\<close>

fun sink ::
  "Settings \<Rightarrow> 'ir Construction \<Rightarrow> (StringRef \<times> StringRef list \<times> 'ir pipeline) list
   \<Rightarrow> fault + 'ir Construction" where
  "sink settings c [] = Inr c"
| "sink settings c (call # calls) =
     (case add_stage settings c call of
        Inl e \<Rightarrow> Inl e
      | Inr c' \<Rightarrow> sink settings c' calls)"

text \<open>The body of the inner loop over \<^verbatim>\<open>stage.jumps\<close>.\<close>

definition resolve_jump ::
  "store \<Rightarrow> (nat \<times> nat) list \<Rightarrow> 'ir PassManagerStage \<Rightarrow> StringRef
   \<Rightarrow> fault + 'ir PassManagerStage" where
  "resolve_jump mem smap s jump =
     (if StringRef_empty jump then Inl Jump_name_empty
      else case map_find smap (StringRef_data jump) of
             None \<Rightarrow> Inl Jump_target_unknown
           | Some target \<Rightarrow> add_jump s (StringAttr_get mem jump) (Some target))"

fun resolve_jumps ::
  "store \<Rightarrow> (nat \<times> nat) list \<Rightarrow> 'ir PassManagerStage \<Rightarrow> StringRef list
   \<Rightarrow> fault + 'ir PassManagerStage" where
  "resolve_jumps mem smap s [] = Inr s"
| "resolve_jumps mem smap s (jump # js) =
     (case resolve_jump mem smap s jump of
        Inl e \<Rightarrow> Inl e
      | Inr s' \<Rightarrow> resolve_jumps mem smap s' js)"

text \<open>The outer loop over \<^verbatim>\<open>stages_temp\<close>.\<close>

fun resolve_stages ::
  "store \<Rightarrow> (nat \<times> nat) list \<Rightarrow> 'ir StageDesc list \<Rightarrow> fault + 'ir StageDesc list" where
  "resolve_stages mem smap [] = Inr []"
| "resolve_stages mem smap (d # ds) =
     (case resolve_jumps mem smap (desc_stage d) (desc_jumps d) of
        Inl e \<Rightarrow> Inl e
      | Inr s' \<Rightarrow>
          (case resolve_stages mem smap ds of
             Inl e \<Rightarrow> Inl e
           | Inr ds' \<Rightarrow> Inr (d\<lparr>desc_stage := s'\<rparr> # ds')))"

record 'ir PassManagerSchedule =
  stages :: "'ir PassManagerStage list"

text \<open>
  The constructor: the calls of \<^verbatim>\<open>add_stage\<close>, the resolution of the jumps, the move
  of the stages into the array.
\<close>

definition PassManagerSchedule_new ::
  "store \<Rightarrow> MLIRContext \<Rightarrow> Settings \<Rightarrow> (StringRef \<times> StringRef list \<times> 'ir pipeline) list
   \<Rightarrow> fault + MLIRContext \<times> 'ir PassManagerSchedule" where
  "PassManagerSchedule_new mem ctx settings description =
     (case sink settings \<lparr>mlir_context = ctx, stages_temp = [], stages_map = []\<rparr> description of
        Inl e \<Rightarrow> Inl e
      | Inr c \<Rightarrow>
          (case resolve_stages mem (stages_map c) (stages_temp c) of
             Inl e \<Rightarrow> Inl e
           | Inr ds \<Rightarrow> Inr (mlir_context c, \<lparr>stages = map desc_stage ds\<rparr>)))"

subsection \<open>\<^verbatim>\<open>PassManagerSchedule::run\<close>\<close>

text \<open>
  What a run threads through the stages: the module, the diagnostics emitted so far
  (they go to the handler installed on the context), and a log of the stages run, in
  order. The log is read by no operation; it is what the properties about visited
  stages are stated on.
\<close>

record 'ir RunState =
  module :: "'ir ModuleOp"
  emitted :: "Diagnostic list"
  visited :: "nat list"

datatype 'ir Step =
  Continue nat "'ir RunState"
  | Return "fault + LogicalResult" "'ir RunState"

text \<open>
  One pass through the body of the do-while loop with \<^verbatim>\<open>current\<close> pointing at stage
  \<open>current\<close>, and the loop test: \<open>Continue\<close> with the next \<^verbatim>\<open>current\<close>, or the
  value returned. A \<^verbatim>\<open>current\<close> that is not an element of the array is a wild
  pointer.
\<close>

definition loop_body :: "'ir PassManagerSchedule \<Rightarrow> nat \<Rightarrow> 'ir RunState \<Rightarrow> 'ir Step" where
  "loop_body sched current st =
     (if length (stages sched) \<le> current then Return (Inl Undefined_behaviour) st
      else
        let stage = stages sched ! current;
            ran = Stage_run stage (module st);
            st1 = st\<lparr>module := snd (snd ran),
                     emitted := emitted st @ fst (snd ran),
                     visited := visited st @ [current]\<rparr>
        in if failed (fst ran) then Return (Inr Failure) st1
           else
             let markers = get_pipeline_jump_markers (module st1);
                 jump_target = get_jump stage markers
             in case fst jump_target of
                  Some target \<Rightarrow>
                    Continue target
                      (st1\<lparr>module :=
                         remove_pipeline_jump_marker (module st1) (snd jump_target)\<rparr>)
                | None \<Rightarrow>
                    (case get_next_stage stage of
                       Some next \<Rightarrow> Continue next st1
                     | None \<Rightarrow> Return (Inr Success) st1))"

partial_function (option) run_loop ::
  "'ir PassManagerSchedule \<Rightarrow> nat \<Rightarrow> 'ir RunState
   \<Rightarrow> ((fault + LogicalResult) \<times> 'ir RunState) option" where
  "run_loop sched current st =
     (case loop_body sched current st of
        Return r st' \<Rightarrow> Some (r, st')
      | Continue next st' \<Rightarrow> run_loop sched next st')"

text \<open>
  \<^verbatim>\<open>run\<close>: \<^verbatim>\<open>stages[0]\<close> is read before the loop; on an array of no elements the
  read is out of bounds.
\<close>

definition PassManagerSchedule_run ::
  "'ir PassManagerSchedule \<Rightarrow> 'ir ModuleOp
   \<Rightarrow> ((fault + LogicalResult) \<times> 'ir RunState) option" where
  "PassManagerSchedule_run sched m =
     (let st = \<lparr>module = m, emitted = [], visited = []\<rparr>
      in case stages sched of
           [] \<Rightarrow> Some (Inl Undefined_behaviour, st)
         | first # rest \<Rightarrow> run_loop sched 0 st)"

text \<open>
  The loop unrolled a given number of times, for statements about a run that does not
  return.
\<close>

fun iterations :: "'ir PassManagerSchedule \<Rightarrow> nat \<Rightarrow> 'ir Step \<Rightarrow> 'ir Step" where
  "iterations sched 0 s = s"
| "iterations sched (Suc n) s =
     (case s of
        Return r st \<Rightarrow> Return r st
      | Continue current st \<Rightarrow> iterations sched n (loop_body sched current st))"

subsection \<open>\<^verbatim>\<open>CompilerContextImpl::run\<close>\<close>

definition newline :: string where
  "newline = [CHR 0x0A]"

text \<open>The handler: what one diagnostic appends to \<^verbatim>\<open>err_stream\<close>.\<close>

definition diag_handler :: "string \<Rightarrow> Diagnostic \<Rightarrow> string" where
  "diag_handler err diag =
     (if getSeverity diag = Error
      then fold (\<lambda>note e. e @ newline @ str note) (getNotes diag) (err @ str diag)
      else err)"

datatype ContextResult = Returned | FatalError string | Fault fault

text \<open>
  Modelled from the spec: \<^verbatim>\<open>plier::scoped_diag_handler\<close> and \<^verbatim>\<open>plier::report_error\<close>
  (\<^verbatim>\<open>plier/utils.hpp\<close>) are not among the sources. The handler is installed for the
  duration of the schedule's run, so it sees every diagnostic emitted there, in order;
  \<^verbatim>\<open>report_error\<close> raises one fatal error carrying the text it is given. The printer
  of the module is a parameter.
\<close>

definition CompilerContextImpl_run ::
  "('ir ModuleOp \<Rightarrow> string) \<Rightarrow> 'ir PassManagerSchedule \<Rightarrow> 'ir ModuleOp
   \<Rightarrow> (ContextResult \<times> 'ir ModuleOp) option" where
  "CompilerContextImpl_run print schedule m =
     (case PassManagerSchedule_run schedule m of
        None \<Rightarrow> None
      | Some (r, st) \<Rightarrow>
          (let err = fold (\<lambda>diag e. diag_handler e diag) (emitted st) []
           in case r of
                Inl f \<Rightarrow> Some (Fault f, module st)
              | Inr result \<Rightarrow>
                  if failed result
                  then Some (FatalError (''MLIR pipeline failed'' @ newline @
                                          (err @ newline @ print (module st))),
                             module st)
                  else Some (Returned, module st)))"

subsection \<open>What a well-formed description is built into\<close>

text \<open>
  The definitions of this subsection are not code: they say, in closed form, what the
  constructor computes, and the lemmas below prove that it does.
\<close>

definition stage_context :: "Settings \<Rightarrow> MLIRContext \<Rightarrow> MLIRContext" where
  "stage_context settings ctx =
     (if irDumpStderr settings \<or> irPrinting settings \<noteq> None
      then ctx\<lparr>multithreading := False\<rparr> else ctx)"

definition fresh_stage :: "Settings \<Rightarrow> 'ir pipeline \<Rightarrow> 'ir PassManagerStage" where
  "fresh_stage settings f = snd (PassManagerStage_new \<lparr>multithreading = True\<rparr> settings f)"

definition name_table :: "(StringRef \<times> StringRef list \<times> 'ir pipeline) list \<Rightarrow> (nat \<times> nat) list" where
  "name_table calls = zip (map (\<lambda>c. Data (fst c)) calls) [0..<length calls]"

definition built ::
  "Settings \<Rightarrow> MLIRContext \<Rightarrow> (StringRef \<times> StringRef list \<times> 'ir pipeline) list
   \<Rightarrow> 'ir Construction" where
  "built settings ctx calls =
     \<lparr>mlir_context = (if calls = [] then ctx else stage_context settings ctx),
      stages_temp =
        map (\<lambda>i. \<lparr>desc_name = fst (calls ! i), desc_jumps = fst (snd (calls ! i)),
                   desc_stage = (fresh_stage settings (snd (snd (calls ! i))))
                     \<lparr>next_stage := (if Suc i < length calls then Some (Suc i) else None)\<rparr>\<rparr>)
          [0..<length calls],
      stages_map = name_table calls\<rparr>"

definition names_distinct :: "(StringRef \<times> StringRef list \<times> 'ir pipeline) list \<Rightarrow> bool" where
  "names_distinct calls =
     ((\<forall>c \<in> set calls. Length (fst c) \<noteq> 0) \<and> distinct (map (\<lambda>c. Data (fst c)) calls))"

definition jumps_known :: "(nat \<times> nat) list \<Rightarrow> StringRef list \<Rightarrow> bool" where
  "jumps_known smap js = (\<forall>j \<in> set js. Length j \<noteq> 0 \<and> map_of smap (Data j) \<noteq> None)"

definition description_ok :: "(StringRef \<times> StringRef list \<times> 'ir pipeline) list \<Rightarrow> bool" where
  "description_ok calls =
     (names_distinct calls \<and> (\<forall>c \<in> set calls. jumps_known (name_table calls) (fst (snd c))))"

definition resolved_edges ::
  "store \<Rightarrow> (nat \<times> nat) list \<Rightarrow> StringRef list \<Rightarrow> (string \<times> nat) list" where
  "resolved_edges mem smap js =
     map (\<lambda>j. (StringRef_str mem j, the (map_of smap (Data j)))) js"

definition wired_stage ::
  "store \<Rightarrow> Settings \<Rightarrow> (StringRef \<times> StringRef list \<times> 'ir pipeline) list \<Rightarrow> nat
   \<Rightarrow> 'ir PassManagerStage" where
  "wired_stage mem settings calls i =
     (fresh_stage settings (snd (snd (calls ! i))))
       \<lparr>jumps := resolved_edges mem (name_table calls) (fst (snd (calls ! i))),
        next_stage := (if Suc i < length calls then Some (Suc i) else None)\<rparr>"

text \<open>What the handler appends for one error: its message, then each note on a new line.\<close>

definition render_diagnostic :: "Diagnostic \<Rightarrow> string" where
  "render_diagnostic d = str d @ concat (map (\<lambda>note. newline @ str note) (getNotes d))"

fun state_of :: "'ir Step \<Rightarrow> 'ir RunState" where
  "state_of (Continue current st) = st"
| "state_of (Return r st) = st"

subsection \<open>Concrete pipelines\<close>

text \<open>
  A store holding the characters \<open>A B A C\<close> at addresses 0 to 3 (and \<open>C\<close> beyond), and
  the one-character name at an address: the names at 0 and 2 have equal contents and
  distinct buffers.
\<close>

definition mem0 :: store where
  "mem0 a = (if a = 0 then CHR ''A'' else if a = 1 then CHR ''B''
             else if a = 2 then CHR ''A'' else CHR ''C'')"

definition name_at :: "nat \<Rightarrow> StringRef" where
  "name_at a = \<lparr>Data = a, Length = 1\<rparr>"

definition settings0 :: Settings where
  "settings0 = \<lparr>verify = True, passStatistics = False, passTimings = False,
                irDumpStderr = False, irPrinting = None\<rparr>"

definition ctx0 :: MLIRContext where
  "ctx0 = \<lparr>multithreading = True\<rparr>"

definition module0 :: "nat ModuleOp" where
  "module0 = \<lparr>body = 0, jump_markers = None\<rparr>"

text \<open>Passes over a module whose contents are a counter.\<close>

definition pass_ok :: "nat pipeline" where
  "pass_ok m = (Success, [], m\<lparr>body := Suc (body m)\<rparr>)"


definition pass_fail :: "nat pipeline" where
  "pass_fail m =
     (Failure,
      [Diagnostic Warning ''slow'' [], Diagnostic Error ''bad op'' [Diagnostic Note ''here'' []]],
      m\<lparr>body := Suc (body m)\<rparr>)"

definition pass_mark :: "string list \<Rightarrow> nat pipeline" where
  "pass_mark names m = (Success, [], m\<lparr>body := Suc (body m), jump_markers := Some names\<rparr>)"


definition stage0 :: "nat pipeline \<Rightarrow> (string \<times> nat) list \<Rightarrow> nat option \<Rightarrow> nat PassManagerStage" where
  "stage0 f js n = \<lparr>pm = PassManager_new\<lparr>pipeline := f\<rparr>, jumps = js, next_stage = n\<rparr>"

text \<open>
  Four stages: stage 0 writes the markers \<open>y x z\<close> and declares edges on \<open>w\<close>, \<open>x\<close>
  and \<open>y\<close>; stage 2 fails and declares an edge on \<open>y\<close>.
\<close>

definition schedule0 :: "nat PassManagerSchedule" where
  "schedule0 =
     \<lparr>stages =
        [stage0 (pass_mark [''y'', ''x'', ''z'']) [(''w'', 0), (''x'', 2), (''y'', 1)] (Some 1),
         stage0 pass_ok [] (Some 2),
         stage0 pass_fail [(''y'', 0)] (Some 3),
         stage0 pass_ok [] None]\<rparr>"

section \<open>Properties of \<^verbatim>\<open>get_jump\<close>\<close>

lemma match_names_iff:
  "match_names it names =
     (if fst it \<in> set names then Some (Some (snd it), Some (fst it)) else None)"
  by (induction names) auto

lemma scan_jumps_none:
  "(\<And>it. it \<in> set its \<Longrightarrow> fst it \<notin> set names) \<Longrightarrow> scan_jumps its names = (None, None)"
  by (induction its) (simp_all add: match_names_iff)

lemma scan_jumps_first:
  assumes "n \<in> set names" and "\<And>it. it \<in> set pre \<Longrightarrow> fst it \<notin> set names"
  shows "scan_jumps (pre @ (n, t) # post) names = (Some t, Some n)"
  using assms by (induction pre) (simp_all add: match_names_iff)

text \<open>
  Claim C7. \<^verbatim>\<open>get_jump\<close> scans the declared edges in declaration order and returns
  the first edge whose marker name is among the candidates, with that name: when the
  edges are \<open>pre @ (n, t) # post\<close>, \<open>n\<close> is a candidate and no edge of \<open>pre\<close> names a
  candidate, the result is \<open>(t, n)\<close>. The result is (none, none) when the candidate
  array is absent, when it is empty, and when no declared edge names a candidate.
\<close>

theorem get_jump_first_declared_edge:
  "get_jump s None = (None, None) \<and>
   get_jump s (Some []) = (None, None) \<and>
   ((\<forall>it \<in> set (jumps s). fst it \<notin> set ns) \<longrightarrow> get_jump s (Some ns) = (None, None)) \<and>
   (\<forall>pre n t post.
      jumps s = pre @ (n, t) # post \<and> n \<in> set ns \<and> (\<forall>it \<in> set pre. fst it \<notin> set ns)
      \<longrightarrow> get_jump s (Some ns) = (Some t, Some n))"
proof (intro conjI allI impI)
  show "get_jump s None = (None, None)"
    by (simp add: get_jump_def)
  show "get_jump s (Some []) = (None, None)"
    by (simp add: get_jump_def scan_jumps_none)
  show "get_jump s (Some ns) = (None, None)" if "\<forall>it \<in> set (jumps s). fst it \<notin> set ns"
    using that by (simp add: get_jump_def scan_jumps_none)
  show "get_jump s (Some ns) = (Some t, Some n)"
    if "jumps s = pre @ (n, t) # post \<and> n \<in> set ns \<and> (\<forall>it \<in> set pre. fst it \<notin> set ns)"
    for pre n t post
    using that by (simp add: get_jump_def scan_jumps_first)
qed

theorem get_jump_first_declared_edge_witness:
  "get_jump (\<lparr>pm = PassManager_new, jumps = [(''w'', 3), (''x'', 1), (''y'', 2), (''x'', 0)],
             next_stage = None\<rparr> :: unit PassManagerStage) (Some [''y'', ''x''])
   = (Some 1, Some ''x'')"
proof -
  let ?s = "\<lparr>pm = PassManager_new, jumps = [(''w'', 3), (''x'', 1), (''y'', 2), (''x'', 0)],
             next_stage = None\<rparr> :: unit PassManagerStage"
  note first_edge = get_jump_first_declared_edge [of ?s "[''y'', ''x'']",
      THEN conjunct2, THEN conjunct2, THEN conjunct2, rule_format,
      of "[(''w'', 3)]" "''x''" 1 "[(''y'', 2), (''x'', 0)]"]
  show ?thesis
    by (rule first_edge) simp
qed

section \<open>Properties of the execution loop\<close>

lemma loop_body_failure:
  assumes "current < length (stages sched)"
      and "Stage_run (stages sched ! current) (module st) = (Failure, ds, m')"
  shows "loop_body sched current st =
           Return (Inr Failure)
             (st\<lparr>module := m', emitted := emitted st @ ds, visited := visited st @ [current]\<rparr>)"
  using assms by (simp add: loop_body_def failed_def Let_def)

lemma loop_body_jump:
  assumes "current < length (stages sched)"
      and "Stage_run (stages sched ! current) (module st) = (Success, ds, m')"
      and "get_jump (stages sched ! current) (jump_markers m') = (Some t, n)"
  shows "loop_body sched current st =
           Continue t
             (st\<lparr>module := remove_pipeline_jump_marker m' n,
                 emitted := emitted st @ ds, visited := visited st @ [current]\<rparr>)"
  using assms by (simp add: loop_body_def failed_def Let_def get_pipeline_jump_markers_def)

lemma loop_body_default:
  assumes "current < length (stages sched)"
      and "Stage_run (stages sched ! current) (module st) = (Success, ds, m')"
      and "get_jump (stages sched ! current) (jump_markers m') = (None, n)"
  shows "loop_body sched current st =
           (case next_stage (stages sched ! current) of
              Some nxt \<Rightarrow> Continue nxt
                (st\<lparr>module := m', emitted := emitted st @ ds, visited := visited st @ [current]\<rparr>)
            | None \<Rightarrow> Return (Inr Success)
                (st\<lparr>module := m', emitted := emitted st @ ds, visited := visited st @ [current]\<rparr>))"
  using assms
  by (simp add: loop_body_def failed_def Let_def get_pipeline_jump_markers_def
      get_next_stage_def split: option.splits)

lemma loop_body_visited:
  "visited (state_of (loop_body sched current st)) =
     (if current < length (stages sched) then visited st @ [current] else visited st)"
  by (simp add: loop_body_def Let_def split: option.splits)

lemma loop_body_emitted:
  "current < length (stages sched) \<Longrightarrow>
   emitted (state_of (loop_body sched current st)) =
     emitted st @ fst (snd (Stage_run (stages sched ! current) (module st)))"
  by (simp add: loop_body_def Let_def split: option.splits)

lemma iterations_Return:
  "iterations sched n (Return r st) = Return r st"
  by (cases n) simp_all


lemma run_loop_iterations:
  "run_loop sched current st =
     (case iterations sched n (Continue current st) of
        Return r st' \<Rightarrow> Some (r, st')
      | Continue next st' \<Rightarrow> run_loop sched next st')"
proof (induction n arbitrary: current st)
  case 0
  show ?case by simp
next
  case (Suc n)
  show ?case
  proof (cases "loop_body sched current st")
    case (Continue c s)
    then show ?thesis using Suc [of c s] by (subst run_loop.simps) simp
  next
    case (Return r s)
    then show ?thesis by (subst run_loop.simps) (simp add: iterations_Return)
  qed
qed

lemma run_loop_visited:
  assumes "run_loop sched current st = Some (r, st')"
  shows "prefix (visited (state_of (loop_body sched current st))) (visited st')"
proof -
  have "prefix (visited (state_of (loop_body sc c s))) (visited (snd y))"
    if "run_loop sc c s = Some y" for sc :: "'a PassManagerSchedule" and c s y
  proof (rule run_loop.raw_induct
      [where P = "\<lambda>sc c s y. prefix (visited (state_of (loop_body sc c s))) (visited (snd y))",
        OF _ that])
    fix f and sc :: "'a PassManagerSchedule" and c s y
    assume IH: "\<And>sc c s y. f sc c s = Some y
                  \<Longrightarrow> prefix (visited (state_of (loop_body sc c s))) (visited (snd y))"
       and body: "(case loop_body sc c s of
                     Continue next st' \<Rightarrow> f sc next st'
                   | Return r st' \<Rightarrow> Some (r, st')) = Some y"
    show "prefix (visited (state_of (loop_body sc c s))) (visited (snd y))"
    proof (cases "loop_body sc c s")
      case (Continue c' s')
      with body have "f sc c' s' = Some y" by simp
      from IH [OF this] have "prefix (visited (state_of (loop_body sc c' s'))) (visited (snd y))" .
      moreover have "prefix (visited s') (visited (state_of (loop_body sc c' s')))"
        by (simp add: loop_body_visited)
      ultimately show ?thesis using Continue by (auto intro: prefix_order.trans)
    next
      case (Return r' s')
      with body show ?thesis by auto
    qed
  qed
  from this [OF assms] show ?thesis by simp
qed



lemma schedule0_first_stage:
  "Stage_run (stages schedule0 ! 0) module0 =
     (Success, [], \<lparr>body = 1, jump_markers = Some [''y'', ''x'', ''z'']\<rparr>)"
  by (simp add: schedule0_def stage0_def Stage_run_def PassManager_run_def PassManager_new_def
      pass_mark_def module0_def)

lemma schedule0_first_iteration:
  "loop_body schedule0 0 \<lparr>module = module0, emitted = [], visited = []\<rparr> =
     Continue 2 \<lparr>module = \<lparr>body = 1, jump_markers = Some [''y'', ''z'']\<rparr>,
                 emitted = [], visited = [0]\<rparr>"
  by (simp add: loop_body_def Let_def failed_def get_pipeline_jump_markers_def get_jump_def
      remove_pipeline_jump_marker_def schedule0_def stage0_def Stage_run_def PassManager_run_def
      PassManager_new_def pass_mark_def module0_def)

text \<open>
  Claim C1. When a stage has succeeded and left the markers \<open>markers\<close> on the module,
  and its declared edges are \<open>pre @ (n, t) # post\<close> where \<open>n\<close> is a marker and no edge
  of \<open>pre\<close> names a marker (\<open>post\<close> may name further markers), the loop continues at
  \<open>t\<close>, the target of the first declared edge that names a marker, and the module it
  continues with differs from the one the stage left only in its markers: \<open>n\<close> is
  gone and every other marker is still there.
\<close>

theorem first_declared_jump_taken:
  assumes "current < length (stages sched)"
      and "Stage_run (stages sched ! current) (module st) = (Success, ds, m')"
      and "jump_markers m' = Some markers"
      and "jumps (stages sched ! current) = pre @ (n, t) # post"
      and "n \<in> set markers"
      and "\<forall>it \<in> set pre. fst it \<notin> set markers"
  shows "loop_body sched current st =
           Continue t
             (st\<lparr>module := m'\<lparr>jump_markers := Some (removeAll n markers)\<rparr>,
                 emitted := emitted st @ ds, visited := visited st @ [current]\<rparr>) \<and>
         n \<notin> set (removeAll n markers) \<and>
         (\<forall>x \<in> set markers. x \<noteq> n \<longrightarrow> x \<in> set (removeAll n markers))"
proof -
  have "get_jump (stages sched ! current) (jump_markers m') = (Some t, Some n)"
    using assms(3-6) by (simp add: get_jump_def scan_jumps_first)
  from loop_body_jump [OF assms(1,2) this] assms(3) show ?thesis
    by (simp add: remove_pipeline_jump_marker_def)
qed

theorem first_declared_jump_taken_witness:
  "loop_body schedule0 0 \<lparr>module = module0, emitted = [], visited = []\<rparr> =
     Continue 2 \<lparr>module = \<lparr>body = 1, jump_markers = Some [''y'', ''z'']\<rparr>,
                 emitted = [], visited = [0]\<rparr>"
proof -
  have len: "0 < length (stages schedule0)"
    by (simp add: schedule0_def)
  have edges: "jumps (stages schedule0 ! 0) = [(''w'', 0)] @ (''x'', 2) # [(''y'', 1)]"
    by (simp add: schedule0_def stage0_def)
  have present: "''x'' \<in> set [''y'', ''x'', ''z'']"
    by simp
  have earlier: "\<forall>it \<in> set [(''w'', 0::nat)]. fst it \<notin> set [''y'', ''x'', ''z'']"
    by simp
  have "Stage_run (stages schedule0 ! 0)
          (module \<lparr>module = module0, emitted = [], visited = []\<rparr>) =
        (Success, [], \<lparr>body = 1, jump_markers = Some [''y'', ''x'', ''z'']\<rparr>)"
    by (simp add: schedule0_first_stage)
  from first_declared_jump_taken [OF len this _ edges present earlier]
  show ?thesis
    by simp
qed

text \<open>
  Claim C3. When the run has reached stage \<open>current\<close> (after any number \<open>k\<close> of
  iterations of the loop) and that stage's run fails, \<^verbatim>\<open>run\<close> returns failure; the
  module returned is the module exactly as the failing stage left it, markers included
  (they are not consulted, and none is removed), and the failing stage is the last
  stage run.
\<close>

theorem failing_stage_ends_run:
  assumes "iterations sched k (Continue 0 \<lparr>module = m, emitted = [], visited = []\<rparr>)
             = Continue current st"
      and "current < length (stages sched)"
      and "Stage_run (stages sched ! current) (module st) = (Failure, ds, m')"
  shows "PassManagerSchedule_run sched m =
           Some (Inr Failure,
                 st\<lparr>module := m', emitted := emitted st @ ds,
                    visited := visited st @ [current]\<rparr>)"
proof -
  from assms(2) obtain first rest where ne: "stages sched = first # rest"
    by (cases "stages sched") auto
  have "run_loop sched current st =
          Some (Inr Failure,
                st\<lparr>module := m', emitted := emitted st @ ds, visited := visited st @ [current]\<rparr>)"
    by (subst run_loop.simps) (simp add: loop_body_failure [OF assms(2,3)])
  with run_loop_iterations [of sched 0 _ k] assms(1) ne show ?thesis
    by (simp add: PassManagerSchedule_run_def)
qed

theorem failing_stage_ends_run_witness:
  "PassManagerSchedule_run schedule0 module0 =
     Some (Inr Failure,
           \<lparr>module = \<lparr>body = 2, jump_markers = Some [''y'', ''z'']\<rparr>,
            emitted = [Diagnostic Warning ''slow'' [],
                       Diagnostic Error ''bad op'' [Diagnostic Note ''here'' []]],
            visited = [0, 2]\<rparr>)"
proof -
  have reach: "iterations schedule0 1 (Continue 0 \<lparr>module = module0, emitted = [], visited = []\<rparr>)
          = Continue 2 \<lparr>module = \<lparr>body = 1, jump_markers = Some [''y'', ''z'']\<rparr>,
                        emitted = [], visited = [0]\<rparr>"
    by (simp add: schedule0_first_iteration)
  have len: "2 < length (stages schedule0)"
    by (simp add: schedule0_def)
  have fails: "Stage_run (stages schedule0 ! 2)
          (module \<lparr>module = \<lparr>body = 1, jump_markers = Some [''y'', ''z'']\<rparr>,
                   emitted = [], visited = [0]\<rparr>) =
        (Failure,
         [Diagnostic Warning ''slow'' [], Diagnostic Error ''bad op'' [Diagnostic Note ''here'' []]],
         \<lparr>body = 2, jump_markers = Some [''y'', ''z'']\<rparr>)"
    by (simp add: schedule0_def stage0_def Stage_run_def PassManager_run_def PassManager_new_def
        pass_fail_def)
  from failing_stage_ends_run [OF reach len fails] show ?thesis
    by simp
qed

text \<open>
  Claim C10. \<^verbatim>\<open>run\<close> presupposes a schedule with a first stage. A description of
  no stages is built into a schedule whose array has no elements, and on an array of no
  stages the read of \<^verbatim>\<open>stages[0]\<close> is out of bounds (undefined; no stage runs). On
  any other schedule the run is the loop entered at stage 0 with no test before the
  body: the first thing that happens is the run of stage 0 on the module given, whose
  diagnostics are the first emitted, and in every run that returns stage 0 is the first
  stage run.
\<close>

theorem run_enters_first_stage:
  "PassManagerSchedule_new mem ctx settings
     ([] :: (StringRef \<times> StringRef list \<times> 'ir pipeline) list) = Inr (ctx, \<lparr>stages = []\<rparr>) \<and>
   (stages (sched :: 'ir PassManagerSchedule) = [] \<longrightarrow>
      PassManagerSchedule_run sched m =
        Some (Inl Undefined_behaviour, \<lparr>module = m, emitted = [], visited = []\<rparr>)) \<and>
   (stages sched \<noteq> [] \<longrightarrow>
      PassManagerSchedule_run sched m =
        (case loop_body sched 0 \<lparr>module = m, emitted = [], visited = []\<rparr> of
           Return r st' \<Rightarrow> Some (r, st')
         | Continue next st' \<Rightarrow> run_loop sched next st') \<and>
      visited (state_of (loop_body sched 0 \<lparr>module = m, emitted = [], visited = []\<rparr>)) = [0] \<and>
      emitted (state_of (loop_body sched 0 \<lparr>module = m, emitted = [], visited = []\<rparr>)) =
        fst (snd (Stage_run (stages sched ! 0) m)) \<and>
      (\<forall>r st'. PassManagerSchedule_run sched m = Some (r, st')
         \<longrightarrow> (\<exists>rest. visited st' = 0 # rest)))"
proof (intro conjI impI allI)
  show "PassManagerSchedule_new mem ctx settings [] = Inr (ctx, \<lparr>stages = []\<rparr>)"
    by (simp add: PassManagerSchedule_new_def)
next
  assume "stages sched = []"
  then show "PassManagerSchedule_run sched m =
        Some (Inl Undefined_behaviour, \<lparr>module = m, emitted = [], visited = []\<rparr>)"
    by (simp add: PassManagerSchedule_run_def)
next
  assume ne: "stages sched \<noteq> []"
  then have run: "PassManagerSchedule_run sched m =
      run_loop sched 0 \<lparr>module = m, emitted = [], visited = []\<rparr>"
    by (cases "stages sched") (simp_all add: PassManagerSchedule_run_def)
  then show "PassManagerSchedule_run sched m =
        (case loop_body sched 0 \<lparr>module = m, emitted = [], visited = []\<rparr> of
           Return r st' \<Rightarrow> Some (r, st')
         | Continue next st' \<Rightarrow> run_loop sched next st')"
    by (simp add: run_loop.simps [of sched 0] split: Step.splits)
  from ne show first: "visited (state_of (loop_body sched 0
      \<lparr>module = m, emitted = [], visited = []\<rparr>)) = [0]"
    by (simp add: loop_body_visited)
  from ne show "emitted (state_of (loop_body sched 0 \<lparr>module = m, emitted = [], visited = []\<rparr>)) =
        fst (snd (Stage_run (stages sched ! 0) m))"
    by (simp add: loop_body_emitted)
  show "\<exists>rest. visited st' = 0 # rest"
    if "PassManagerSchedule_run sched m = Some (r, st')" for r st'
  proof -
    from that run have "run_loop sched 0 \<lparr>module = m, emitted = [], visited = []\<rparr> = Some (r, st')"
      by simp
    from run_loop_visited [OF this] first have "prefix [0] (visited st')"
      by simp
    then show ?thesis
      by (auto simp: prefix_def)
  qed
qed

theorem run_enters_first_stage_witness:
  "PassManagerSchedule_new mem0 ctx0 settings0
     ([] :: (StringRef \<times> StringRef list \<times> nat pipeline) list) = Inr (ctx0, \<lparr>stages = []\<rparr>) \<and>
   PassManagerSchedule_run \<lparr>stages = []\<rparr> module0 =
     Some (Inl Undefined_behaviour, \<lparr>module = module0, emitted = [], visited = []\<rparr>) \<and>
   visited (state_of (loop_body schedule0 0 \<lparr>module = module0, emitted = [], visited = []\<rparr>))
     = [0] \<and>
   (\<exists>rest. visited \<lparr>module = \<lparr>body = 2, jump_markers = Some [''y'', ''z'']\<rparr>,
            emitted = [Diagnostic Warning ''slow'' [],
                       Diagnostic Error ''bad op'' [Diagnostic Note ''here'' []]],
            visited = [0, 2::nat]\<rparr> = 0 # rest)"
proof -
  have empty: "stages (\<lparr>stages = []\<rparr> :: nat PassManagerSchedule) = []"
    by simp
  have ne: "stages schedule0 \<noteq> []"
    by (simp add: schedule0_def)
  from run_enters_first_stage [of mem0 ctx0 settings0 "\<lparr>stages = []\<rparr>" module0] empty
       run_enters_first_stage [of mem0 ctx0 settings0 schedule0 module0] ne
  show ?thesis
    by simp
qed

section \<open>Properties of the construction\<close>

lemma PassManagerStage_new_fst:
  "fst (PassManagerStage_new ctx settings f) = stage_context settings ctx"
  by (cases "irPrinting settings")
     (simp_all add: PassManagerStage_new_def stage_context_def Let_def)

lemma PassManagerStage_new_snd:
  "snd (PassManagerStage_new ctx settings f) = fresh_stage settings f"
  by (simp add: PassManagerStage_new_def fresh_stage_def Let_def)

lemma stage_context_idem:
  "stage_context settings (stage_context settings ctx) = stage_context settings ctx"
  by (simp add: stage_context_def)

lemma fresh_stage_fields:
  "jumps (fresh_stage settings f) = []"
  "next_stage (fresh_stage settings f) = None"
  "pipeline (pm (fresh_stage settings f)) = f"
  by (simp_all add: fresh_stage_def PassManagerStage_new_def Let_def split: option.splits)

lemma fresh_stage_next_None:
  "(fresh_stage settings f)\<lparr>next_stage := None\<rparr> = fresh_stage settings f"
  by (simp add: fresh_stage_def PassManagerStage_new_def Let_def)

lemma built_Nil:
  "built settings ctx [] = \<lparr>mlir_context = ctx, stages_temp = [], stages_map = []\<rparr>"
  by (simp add: built_def name_table_def)

lemma map_count_zip:
  "length ks = length vs \<Longrightarrow> (map_count (zip ks vs) k = 0) = (k \<notin> set ks)"
  by (simp add: map_count_def split: option.splits) (metis map_of_zip_is_None not_Some_eq)

lemma add_stage_built:
  "add_stage settings (built settings ctx calls) x =
     (if Length (fst x) = 0 then Inl Stage_name_empty
      else if Data (fst x) \<in> set (map (\<lambda>c. Data (fst c)) calls) then Inl Stage_name_registered
      else Inr (built settings ctx (calls @ [x])))"
proof -
  obtain name js f where x: "x = (name, js, f)"
    by (cases x)
  show ?thesis
  proof (cases "Length name = 0 \<or> Data name \<in> set (map (\<lambda>c. Data (fst c)) calls)")
    case True
    then show ?thesis
      by (auto simp: x add_stage_def StringRef_empty_def StringRef_data_def Let_def built_def
          name_table_def map_count_zip)
  next
    case False
    show ?thesis
    proof (cases calls rule: rev_cases)
      case Nil
      with False show ?thesis
        by (simp add: x add_stage_def StringRef_empty_def StringRef_data_def Let_def built_def
            name_table_def map_count_def map_insert_def PassManagerStage_new_fst
            PassManagerStage_new_snd fresh_stage_next_None)
    next
      case (snoc ys y)
      have temp: "stages_temp (built settings ctx calls) \<noteq> []"
        by (simp add: built_def snoc)
      have smap: "stages_map (built settings ctx calls) \<noteq> []"
        by (simp add: built_def name_table_def snoc)
      have cnt: "map_count (stages_map (built settings ctx calls)) (Data name) = 0"
        using False by (simp add: built_def name_table_def map_count_zip)
      have "add_stage settings (built settings ctx calls) x =
              Inr (built settings ctx (calls @ [x]))"
        using False
        apply (simp add: x add_stage_def StringRef_empty_def StringRef_data_def Let_def
            temp smap cnt map_insert_def PassManagerStage_new_fst PassManagerStage_new_snd
            del: upt_Suc)
        apply (simp add: built_def name_table_def snoc set_next_stage_def fresh_stage_fields
            stage_context_idem nth_append list_update_append fresh_stage_next_None
            PassManagerStage_new_fst PassManagerStage_new_snd)
        done
      with False show ?thesis
        by (simp add: x)
    qed
  qed
qed

lemma sink_append:
  "sink settings c (xs @ [x]) =
     (case sink settings c xs of Inl e \<Rightarrow> Inl e | Inr c' \<Rightarrow> add_stage settings c' x)"
  by (induction xs arbitrary: c) (simp_all split: sum.splits)

lemma sink_built_ok:
  "names_distinct calls \<Longrightarrow>
   sink settings (built settings ctx []) calls = Inr (built settings ctx calls)"
proof (induction calls rule: rev_induct)
  case Nil
  show ?case by simp
next
  case (snoc x xs)
  then show ?case
    by (simp add: sink_append add_stage_built names_distinct_def)
qed

lemma sink_built_fails:
  "\<not> names_distinct calls \<Longrightarrow> \<exists>e. sink settings (built settings ctx []) calls = Inl e"
proof (induction calls rule: rev_induct)
  case Nil
  then show ?case by (simp add: names_distinct_def)
next
  case (snoc x xs)
  show ?case
  proof (cases "names_distinct xs")
    case True
    with snoc.prems show ?thesis
      by (auto simp: sink_append sink_built_ok add_stage_built names_distinct_def)
  next
    case False
    from snoc.IH [OF this] show ?thesis
      by (auto simp: sink_append)
  qed
qed

lemma StringRef_str_Nil: "(StringRef_str mem j = []) = (Length j = 0)"
  by (auto simp: StringRef_str_def)

lemma resolve_jumps_ok:
  "jumps_known smap js \<Longrightarrow>
   resolve_jumps mem smap s js = Inr (s\<lparr>jumps := jumps s @ resolved_edges mem smap js\<rparr>)"
proof (induction js arbitrary: s)
  case Nil
  show ?case by (simp add: resolved_edges_def)
next
  case (Cons j js)
  then show ?case
    by (auto simp: jumps_known_def resolved_edges_def resolve_jump_def map_find_def
        StringRef_empty_def StringRef_data_def add_jump_def StringAttr_get_def StringRef_str_Nil)
qed

lemma resolve_jumps_fails:
  "\<not> jumps_known smap js \<Longrightarrow> \<exists>e. resolve_jumps mem smap s js = Inl e"
proof (induction js arbitrary: s)
  case Nil
  then show ?case by (simp add: jumps_known_def)
next
  case (Cons j js)
  show ?case
  proof (cases "Length j \<noteq> 0 \<and> map_of smap (Data j) \<noteq> None")
    case True
    with Cons.prems have "\<not> jumps_known smap js"
      by (simp add: jumps_known_def)
    from Cons.IH [OF this] True show ?thesis
      by (auto simp: resolve_jump_def map_find_def StringRef_empty_def StringRef_data_def
          add_jump_def StringAttr_get_def StringRef_str_Nil)
  next
    case False
    then show ?thesis
      by (auto simp: resolve_jump_def map_find_def StringRef_empty_def StringRef_data_def)
  qed
qed

lemma resolve_stages_ok:
  "\<forall>d \<in> set ds. jumps_known smap (desc_jumps d) \<Longrightarrow>
   resolve_stages mem smap ds =
     Inr (map (\<lambda>d. d\<lparr>desc_stage := (desc_stage d)
                 \<lparr>jumps := jumps (desc_stage d) @ resolved_edges mem smap (desc_jumps d)\<rparr>\<rparr>) ds)"
  by (induction ds) (simp_all add: resolve_jumps_ok)

lemma resolve_stages_fails:
  "\<not> (\<forall>d \<in> set ds. jumps_known smap (desc_jumps d)) \<Longrightarrow>
   \<exists>e. resolve_stages mem smap ds = Inl e"
proof (induction ds)
  case Nil
  then show ?case by simp
next
  case (Cons d ds)
  show ?case
  proof (cases "jumps_known smap (desc_jumps d)")
    case True
    with Cons.prems have "\<not> (\<forall>d \<in> set ds. jumps_known smap (desc_jumps d))"
      by simp
    from Cons.IH [OF this] True show ?thesis
      by (auto simp: resolve_jumps_ok)
  next
    case False
    from resolve_jumps_fails [OF this] obtain e
      where "resolve_jumps mem smap (desc_stage d) (desc_jumps d) = Inl e"
      by blast
    then show ?thesis by simp
  qed
qed

lemma built_jumps_known:
  "(\<forall>d \<in> set (stages_temp (built settings ctx calls)).
      jumps_known (name_table calls) (desc_jumps d)) =
   (\<forall>c \<in> set calls. jumps_known (name_table calls) (fst (snd c)))"
  by (auto simp: built_def all_set_conv_all_nth)

lemma sink_from_start:
  "names_distinct calls \<Longrightarrow>
   sink settings \<lparr>mlir_context = ctx, stages_temp = [], stages_map = []\<rparr> calls =
     Inr (built settings ctx calls)"
  using sink_built_ok [of calls settings ctx] by (simp add: built_Nil)

lemma PassManagerSchedule_new_ok:
  assumes "description_ok calls"
  shows "PassManagerSchedule_new mem ctx settings calls =
           Inr (if calls = [] then ctx else stage_context settings ctx,
                \<lparr>stages = map (wired_stage mem settings calls) [0..<length calls]\<rparr>)"
proof -
  from assms have nd: "names_distinct calls"
    and known: "\<forall>d \<in> set (stages_temp (built settings ctx calls)).
                  jumps_known (name_table calls) (desc_jumps d)"
    by (simp_all add: description_ok_def built_jumps_known)
  have smap: "stages_map (built settings ctx calls) = name_table calls"
    by (simp add: built_def)
  show ?thesis
    by (simp add: PassManagerSchedule_new_def sink_from_start [OF nd] smap
        resolve_stages_ok [OF known])
       (simp add: built_def wired_stage_def fresh_stage_fields)
qed

lemma PassManagerSchedule_new_fails:
  assumes "\<not> description_ok calls"
  shows "\<exists>e. PassManagerSchedule_new mem ctx settings calls = Inl e"
proof (cases "names_distinct calls")
  case False
  from sink_built_fails [OF this, of settings ctx] show ?thesis
    by (auto simp: PassManagerSchedule_new_def built_Nil)
next
  case True
  with assms have "\<not> (\<forall>d \<in> set (stages_temp (built settings ctx calls)).
                  jumps_known (name_table calls) (desc_jumps d))"
    by (simp add: description_ok_def built_jumps_known)
  from resolve_stages_fails [OF this, of mem] obtain e
    where "resolve_stages mem (name_table calls) (stages_temp (built settings ctx calls)) = Inl e"
    by blast
  moreover have "stages_map (built settings ctx calls) = name_table calls"
    by (simp add: built_def)
  ultimately show ?thesis
    by (simp add: PassManagerSchedule_new_def sink_from_start [OF True])
qed

lemma map_of_name_table:
  "map_of (name_table calls) a = Some t \<Longrightarrow> t < length calls \<and> Data (fst (calls ! t)) = a"
  unfolding name_table_def
  by (auto dest!: map_of_SomeD simp: in_set_zip)

lemma map_of_name_table_None:
  "(map_of (name_table calls) a = None) = (a \<notin> (\<lambda>c. Data (fst c)) ` set calls)"
  unfolding name_table_def
  by (subst map_of_zip_is_None) simp_all

lemma PassManagerSchedule_new_Inr_iff:
  "(\<exists>ctx' sched. PassManagerSchedule_new mem ctx settings calls = Inr (ctx', sched))
     = description_ok calls"
proof
  assume built: "\<exists>ctx' sched. PassManagerSchedule_new mem ctx settings calls = Inr (ctx', sched)"
  show "description_ok calls"
  proof (rule ccontr)
    assume "\<not> description_ok calls"
    from PassManagerSchedule_new_fails [OF this, of mem ctx settings] built show False
      by auto
  qed
next
  assume "description_ok calls"
  from PassManagerSchedule_new_ok [OF this] show
    "\<exists>ctx' sched. PassManagerSchedule_new mem ctx settings calls = Inr (ctx', sched)"
    by blast
qed

lemma wired_stage_edges:
  assumes "jumps_known (name_table calls) (fst (snd (calls ! i)))"
  shows "list_all2
           (\<lambda>edge j. fst edge = StringRef_str mem j \<and> snd edge < length calls \<and>
                      Data (fst (calls ! snd edge)) = Data j)
           (jumps (wired_stage mem settings calls i)) (fst (snd (calls ! i)))"
proof -
  have "snd (StringRef_str mem j, the (map_of (name_table calls) (Data j))) < length calls \<and>
        Data (fst (calls ! the (map_of (name_table calls) (Data j)))) = Data j"
    if "j \<in> set (fst (snd (calls ! i)))" for j
  proof -
    from assms that obtain t where "map_of (name_table calls) (Data j) = Some t"
      by (auto simp: jumps_known_def)
    with map_of_name_table [OF this] show ?thesis
      by simp
  qed
  then show ?thesis
    by (simp add: wired_stage_def resolved_edges_def list_all2_map1 list_all2_same)
qed

text \<open>
  Claim C5, as the code has it. With the assertions of the constructor checked,
  construction yields a fault and no schedule whenever two stage descriptors' names
  start at the same address, or some declared jump name starts at an address at which
  no stage name starts. (Names are compared by the address of their characters, not by
  their characters.)
\<close>

theorem construction_rejects_by_address:
  assumes "\<not> distinct (map (\<lambda>c. Data (fst c)) description) \<or>
           (\<exists>c \<in> set description. \<exists>j \<in> set (fst (snd c)).
              Data j \<notin> (\<lambda>c. Data (fst c)) ` set description)"
  shows "\<exists>e. PassManagerSchedule_new mem ctx settings description = Inl e"
proof -
  from assms have "\<not> description_ok description"
    by (auto simp: description_ok_def names_distinct_def jumps_known_def
        map_of_name_table_None)
  then show ?thesis
    by (rule PassManagerSchedule_new_fails)
qed

theorem construction_rejects_by_address_witness:
  "(\<exists>e. PassManagerSchedule_new mem0 ctx0 settings0
          [(name_at 0, [], pass_ok), (name_at 1, [name_at 3], pass_ok)] = Inl e) \<and>
   (\<exists>e. PassManagerSchedule_new mem0 ctx0 settings0
          [(name_at 0, [], pass_ok), (name_at 0, [], pass_ok)] = Inl e)"
proof -
  have dangling:
    "\<not> distinct (map (\<lambda>c. Data (fst c))
         [(name_at 0, [], pass_ok), (name_at 1, [name_at 3], pass_ok)]) \<or>
     (\<exists>c \<in> set [(name_at 0, [], pass_ok), (name_at 1, [name_at 3], pass_ok)].
        \<exists>j \<in> set (fst (snd c)).
          Data j \<notin> (\<lambda>c. Data (fst c)) `
            set [(name_at 0, [], pass_ok), (name_at 1, [name_at 3], pass_ok)])"
    by (simp add: name_at_def)
  have duplicate:
    "\<not> distinct (map (\<lambda>c. Data (fst c))
         [(name_at 0, [], pass_ok), (name_at 0, [], pass_ok)]) \<or>
     (\<exists>c \<in> set [(name_at 0, [], pass_ok), (name_at 0, [], pass_ok)].
        \<exists>j \<in> set (fst (snd c)).
          Data j \<notin> (\<lambda>c. Data (fst c)) `
            set [(name_at 0, [], pass_ok), (name_at 0, [], pass_ok)])"
    by (simp add: name_at_def)
  from construction_rejects_by_address [OF dangling]
       construction_rejects_by_address [OF duplicate]
  show ?thesis
    by blast
qed

text \<open>
  The claim as stated fails on names compared by their characters. The names at
  addresses 0 and 2 are both \<open>A\<close>, and a description declaring two stages with them is
  built into a schedule of two stages. The name \<open>A\<close> at address 0 is the name of no
  stage of a description whose only stage is \<open>AB\<close> at address 0, and a jump declared
  with it is resolved, to that stage.
\<close>

theorem construction_accepts_equal_contents:
  "StringRef_str mem0 (name_at 0) = StringRef_str mem0 (name_at 2) \<and>
   (case PassManagerSchedule_new mem0 ctx0 settings0
           [(name_at 0, [], pass_ok), (name_at 2, [], pass_ok)] of
      Inl e \<Rightarrow> None
    | Inr r \<Rightarrow> Some (map jumps (stages (snd r)), map next_stage (stages (snd r))))
     = Some ([[], []], [Some 1, None]) \<and>
   StringRef_str mem0 \<lparr>Data = 0, Length = 1\<rparr> = ''A'' \<and>
   StringRef_str mem0 \<lparr>Data = 0, Length = 2\<rparr> = ''AB'' \<and>
   (case PassManagerSchedule_new mem0 ctx0 settings0
           [(\<lparr>Data = 0, Length = 2\<rparr>, [\<lparr>Data = 0, Length = 1\<rparr>], pass_ok)] of
      Inl e \<Rightarrow> None
    | Inr r \<Rightarrow> Some (map jumps (stages (snd r)), map next_stage (stages (snd r))))
     = Some ([[(''A'', 0)]], [None])"
proof -
  have ok1: "description_ok [(name_at 0, [], pass_ok), (name_at 2, [], pass_ok)]"
    by (simp add: description_ok_def names_distinct_def jumps_known_def name_at_def)
  have ok2: "description_ok [(\<lparr>Data = 0, Length = 2\<rparr>, [\<lparr>Data = 0, Length = 1\<rparr>], pass_ok)]"
    by (simp add: description_ok_def names_distinct_def jumps_known_def name_table_def)
  show ?thesis
    unfolding PassManagerSchedule_new_ok [OF ok1] PassManagerSchedule_new_ok [OF ok2]
    by (simp add: wired_stage_def resolved_edges_def name_table_def StringRef_str_def mem0_def
        name_at_def fresh_stage_fields)
qed

text \<open>
  Claim C9. The table of the constructor is keyed on the address of a name's
  characters. Whenever construction succeeds, every jump edge of every stage was
  resolved to a stage whose name starts at the very address at which the declared jump
  name starts; and two stage names with equal characters in distinct buffers are not
  taken for duplicates: the description declaring them is built into a schedule of two
  stages.
\<close>

theorem stage_table_keyed_by_address:
  "(PassManagerSchedule_new mem ctx settings description = Inr (ctx', sched) \<longrightarrow>
      length (stages sched) = length description \<and>
      (\<forall>i < length description.
         list_all2
           (\<lambda>edge j. fst edge = StringRef_str mem j \<and> snd edge < length description \<and>
                      Data (fst (description ! snd edge)) = Data j)
           (jumps (stages sched ! i)) (fst (snd (description ! i))))) \<and>
   (Length n1 \<noteq> 0 \<and> Length n2 \<noteq> 0 \<and> Data n1 \<noteq> Data n2 \<and>
    StringRef_str mem n1 = StringRef_str mem n2 \<longrightarrow>
      (\<exists>ctx' sched.
         PassManagerSchedule_new mem ctx settings [(n1, [], f1), (n2, [], f2)] = Inr (ctx', sched) \<and>
         length (stages sched) = 2))"
proof (intro conjI impI allI)
  assume built: "PassManagerSchedule_new mem ctx settings description = Inr (ctx', sched)"
  then have ok: "description_ok description"
    using PassManagerSchedule_new_Inr_iff [of mem ctx settings description] by blast
  from PassManagerSchedule_new_ok [OF ok, of mem ctx settings] built
  have sched: "sched = \<lparr>stages = map (wired_stage mem settings description)
                                   [0..<length description]\<rparr>"
    by simp
  then show "length (stages sched) = length description"
    by simp
  show "list_all2
           (\<lambda>edge j. fst edge = StringRef_str mem j \<and> snd edge < length description \<and>
                      Data (fst (description ! snd edge)) = Data j)
           (jumps (stages sched ! i)) (fst (snd (description ! i)))"
    if "i < length description" for i
  proof -
    from ok that have "jumps_known (name_table description) (fst (snd (description ! i)))"
      by (simp add: description_ok_def)
    from wired_stage_edges [OF this, of mem settings] that show ?thesis
      by (simp add: sched)
  qed
next
  assume "Length n1 \<noteq> 0 \<and> Length n2 \<noteq> 0 \<and> Data n1 \<noteq> Data n2 \<and>
          StringRef_str mem n1 = StringRef_str mem n2"
  then have "description_ok [(n1, [], f1), (n2, [], f2)]"
    by (simp add: description_ok_def names_distinct_def jumps_known_def)
  from PassManagerSchedule_new_ok [OF this, of mem ctx settings]
  show "\<exists>ctx' sched.
         PassManagerSchedule_new mem ctx settings [(n1, [], f1), (n2, [], f2)] = Inr (ctx', sched) \<and>
         length (stages sched) = 2"
    by simp
qed

theorem stage_table_keyed_by_address_witness:
  "\<exists>ctx' sched.
     PassManagerSchedule_new mem0 ctx0 settings0
       [(name_at 0, [], pass_ok), (name_at 2, [], pass_fail)] = Inr (ctx', sched) \<and>
     length (stages sched) = 2 \<and>
     jumps (stages sched ! 0) = []"
proof -
  let ?D = "[(name_at 0, [], pass_ok), (name_at 2, [], pass_fail)]"
  have distinct_buffers:
    "Length (name_at 0) \<noteq> 0 \<and> Length (name_at 2) \<noteq> 0 \<and> Data (name_at 0) \<noteq> Data (name_at 2) \<and>
     StringRef_str mem0 (name_at 0) = StringRef_str mem0 (name_at 2)"
    by (simp add: name_at_def StringRef_str_def mem0_def)
  from stage_table_keyed_by_address
         [of mem0 ctx0 settings0 ?D _ _ "name_at 0" "name_at 2" pass_ok pass_fail,
          THEN conjunct2, THEN mp, OF distinct_buffers]
  obtain ctx' sched where built:
    "PassManagerSchedule_new mem0 ctx0 settings0 ?D = Inr (ctx', sched)"
    and two: "length (stages sched) = 2"
    by (elim exE conjE)
  note resolved = stage_table_keyed_by_address
         [of mem0 ctx0 settings0 ?D ctx' sched, THEN conjunct1, THEN mp, OF built,
          THEN conjunct2, THEN spec, of 0, THEN mp]
  from resolved have "jumps (stages sched ! 0) = []"
    by simp
  with built two show ?thesis
    by (intro exI conjI)
qed

section \<open>Runs of constructed schedules\<close>

lemma PassManagerSchedule_run_nonempty:
  "stages sched \<noteq> [] \<Longrightarrow>
   PassManagerSchedule_run sched m = run_loop sched 0 \<lparr>module = m, emitted = [], visited = []\<rparr>"
  by (cases "stages sched") (simp_all add: PassManagerSchedule_run_def)

lemma get_jump_no_edges:
  "jumps s = [] \<Longrightarrow> get_jump s names = (None, None)"
  by (cases names) (simp_all add: get_jump_def)


lemma wired_stage_run:
  "Stage_run (wired_stage mem settings calls i) m = snd (snd (calls ! i)) m"
  by (simp add: wired_stage_def Stage_run_def PassManager_run_def fresh_stage_fields)

lemma wired_stage_jumps:
  "jumps (wired_stage mem settings calls i) =
     resolved_edges mem (name_table calls) (fst (snd (calls ! i)))"
  by (simp add: wired_stage_def)

lemma wired_stage_next:
  "next_stage (wired_stage mem settings calls i) =
     (if Suc i < length calls then Some (Suc i) else None)"
  by (simp add: wired_stage_def)

text \<open>
  Claim C2. A description of three stages \<open>A\<close>, \<open>B\<close>, \<open>C\<close> (non-empty names in three
  buffers) with no jump edges is built into a schedule, and when the passes of \<open>A\<close>
  succeed on the module, those of \<open>B\<close> on the module \<open>A\<close> leaves and those of \<open>C\<close> on
  the module \<open>B\<close> leaves, \<^verbatim>\<open>run\<close> returns success with the module \<open>C\<close> leaves, having
  run exactly the stages 0, 1, 2, in this order, each once. (With no edges declared the
  markers play no part: whatever the passes write, the result is the same.)
\<close>

theorem three_stages_run_in_order:
  assumes "Length nA \<noteq> 0" and "Length nB \<noteq> 0" and "Length nC \<noteq> 0"
      and "distinct [Data nA, Data nB, Data nC]"
      and "pA m = (Success, dA, mA)"
      and "pB mA = (Success, dB, mB)"
      and "pC mB = (Success, dC, mC)"
  shows "\<exists>ctx' sched.
           PassManagerSchedule_new mem ctx settings [(nA, [], pA), (nB, [], pB), (nC, [], pC)]
             = Inr (ctx', sched) \<and>
           PassManagerSchedule_run sched m =
             Some (Inr Success, \<lparr>module = mC, emitted = dA @ dB @ dC, visited = [0, 1, 2]\<rparr>)"
proof -
  let ?calls = "[(nA, [] :: StringRef list, pA), (nB, [], pB), (nC, [], pC)]"
  let ?sched = "\<lparr>stages = map (wired_stage mem settings ?calls) [0..<length ?calls]\<rparr>"
  have "description_ok ?calls"
    using assms(1-4) by (simp add: description_ok_def names_distinct_def jumps_known_def)
  from PassManagerSchedule_new_ok [OF this, of mem ctx settings]
  have built: "PassManagerSchedule_new mem ctx settings ?calls =
                 Inr (stage_context settings ctx, ?sched)"
    by simp
  have len: "length (stages ?sched) = 3"
    by simp
  have nth: "stages ?sched ! i = wired_stage mem settings ?calls i" if "i < 3" for i
    using that by (simp del: upt_Suc add: nth_map [of i])
  have no_jump: "get_jump (wired_stage mem settings ?calls i) names = (None, None)"
    if "i < 3" for i names
    using that
    by (intro get_jump_no_edges) (auto simp: wired_stage_jumps resolved_edges_def less_Suc_eq numeral_3_eq_3)
  have step0: "loop_body ?sched 0 \<lparr>module = m, emitted = [], visited = []\<rparr> =
      Continue 1 \<lparr>module = mA, emitted = dA, visited = [0]\<rparr>"
    using loop_body_default [of 0 ?sched "\<lparr>module = m, emitted = [], visited = []\<rparr>" dA mA None]
    by (simp add: nth wired_stage_run wired_stage_next no_jump assms(5) del: upt_Suc)
  have step1: "loop_body ?sched 1 \<lparr>module = mA, emitted = dA, visited = [0]\<rparr> =
      Continue 2 \<lparr>module = mB, emitted = dA @ dB, visited = [0, 1]\<rparr>"
    using loop_body_default [of 1 ?sched "\<lparr>module = mA, emitted = dA, visited = [0]\<rparr>" dB mB None]
    by (simp add: nth wired_stage_run wired_stage_next no_jump assms(6) del: upt_Suc)
  have step2: "loop_body ?sched 2 \<lparr>module = mB, emitted = dA @ dB, visited = [0, 1]\<rparr> =
      Return (Inr Success) \<lparr>module = mC, emitted = dA @ dB @ dC, visited = [0, 1, 2]\<rparr>"
    using loop_body_default [of 2 ?sched "\<lparr>module = mB, emitted = dA @ dB, visited = [0, 1]\<rparr>"
        dC mC None]
    by (simp add: nth wired_stage_run wired_stage_next no_jump assms(7) del: upt_Suc)
  have loop: "run_loop ?sched 0 \<lparr>module = m, emitted = [], visited = []\<rparr> =
      Some (Inr Success, \<lparr>module = mC, emitted = dA @ dB @ dC, visited = [0, 1, 2]\<rparr>)"
    by (subst run_loop.simps, simp only: step0 Step.case,
        subst run_loop.simps, simp only: step1 Step.case,
        subst run_loop.simps, simp only: step2 Step.case)
  from len have ne: "stages ?sched \<noteq> []"
    by auto
  have "PassManagerSchedule_run ?sched m =
      Some (Inr Success, \<lparr>module = mC, emitted = dA @ dB @ dC, visited = [0, 1, 2]\<rparr>)"
    by (simp only: PassManagerSchedule_run_nonempty [OF ne] loop)
  with built show ?thesis
    by blast
qed

theorem three_stages_run_in_order_witness:
  "\<exists>ctx' sched.
     PassManagerSchedule_new mem0 ctx0 settings0
       [(name_at 0, [], pass_ok), (name_at 1, [], pass_mark [''A'']), (name_at 3, [], pass_ok)]
       = Inr (ctx', sched) \<and>
     PassManagerSchedule_run sched module0 =
       Some (Inr Success,
             \<lparr>module = \<lparr>body = 3, jump_markers = Some [''A'']\<rparr>,
              emitted = [] @ [] @ [], visited = [0, 1, 2]\<rparr>)"
proof -
  have names: "Length (name_at 0) \<noteq> 0" "Length (name_at 1) \<noteq> 0" "Length (name_at 3) \<noteq> 0"
    "distinct [Data (name_at 0), Data (name_at 1), Data (name_at 3)]"
    by (simp_all add: name_at_def)
  have passes:
    "pass_ok module0 = (Success, [], \<lparr>body = 1, jump_markers = None\<rparr>)"
    "pass_mark [''A''] \<lparr>body = 1, jump_markers = None\<rparr> =
       (Success, [], \<lparr>body = 2, jump_markers = Some [''A'']\<rparr>)"
    "pass_ok \<lparr>body = 2, jump_markers = Some [''A'']\<rparr> =
       (Success, [], \<lparr>body = 3, jump_markers = Some [''A'']\<rparr>)"
    by (simp_all add: pass_ok_def pass_mark_def module0_def)
  from three_stages_run_in_order
         [where pA = pass_ok and pB = "pass_mark [''A'']" and pC = pass_ok and m = module0
            and mem = mem0 and ctx = ctx0 and settings = settings0,
          OF names passes]
  show ?thesis .
qed









section \<open>Properties of \<^verbatim>\<open>CompilerContextImpl::run\<close>\<close>

lemma fold_notes:
  "fold (\<lambda>note e. e @ newline @ str note) ns acc =
     acc @ concat (map (\<lambda>note. newline @ str note) ns)"
  by (induction ns arbitrary: acc) simp_all

lemma diag_handler_render:
  "diag_handler err d = (if getSeverity d = Error then err @ render_diagnostic d else err)"
  by (simp add: diag_handler_def render_diagnostic_def fold_notes)

lemma fold_diag_handler:
  "fold (\<lambda>diag e. diag_handler e diag) ds acc =
     acc @ concat (map render_diagnostic (filter (\<lambda>d. getSeverity d = Error) ds))"
  by (induction ds arbitrary: acc) (simp_all add: diag_handler_render)

lemma sublist_trans:
  assumes "sublist xs ys" and "sublist ys zs"
  shows "sublist xs zs"
proof -
  from assms obtain p1 s1 p2 s2 where "ys = p1 @ xs @ s1" and "zs = p2 @ ys @ s2"
    by (auto simp: sublist_def)
  then have "zs = (p2 @ p1) @ xs @ (s1 @ s2)"
    by simp
  then show ?thesis
    unfolding sublist_def by blast
qed

lemma sublist_concat_member:
  "x \<in> set xs \<Longrightarrow> sublist x (concat xs)"
  by (auto dest!: split_list)

lemma sublist_render_message: "sublist (str d) (render_diagnostic d)"
  by (simp add: render_diagnostic_def)

lemma sublist_render_note:
  assumes "n \<in> set (getNotes d)"
  shows "sublist (str n) (render_diagnostic d)"
proof -
  from assms have "newline @ str n \<in> set (map (\<lambda>note. newline @ str note) (getNotes d))"
    by auto
  then have "sublist (newline @ str n) (concat (map (\<lambda>note. newline @ str note) (getNotes d)))"
    by (rule sublist_concat_member)
  moreover have "sublist (str n) (newline @ str n)"
    by simp
  ultimately have "sublist (str n) (concat (map (\<lambda>note. newline @ str note) (getNotes d)))"
    by (rule sublist_trans [rotated])
  moreover have "sublist (concat (map (\<lambda>note. newline @ str note) (getNotes d)))
                   (render_diagnostic d)"
    by (simp add: render_diagnostic_def)
  ultimately show ?thesis
    by (rule sublist_trans)
qed

lemma sublist_errors:
  assumes "d \<in> set ds" and "getSeverity d = Error" and "sublist x (render_diagnostic d)"
  shows "sublist x (pre @ (concat (map render_diagnostic (filter (\<lambda>d. getSeverity d = Error) ds))
                     @ post))"
proof -
  from assms(1,2)
  have "render_diagnostic d \<in> set (map render_diagnostic (filter (\<lambda>d. getSeverity d = Error) ds))"
    by auto
  then have "sublist (render_diagnostic d)
               (concat (map render_diagnostic (filter (\<lambda>d. getSeverity d = Error) ds)))"
    by (rule sublist_concat_member)
  with assms(3)
  have "sublist x (concat (map render_diagnostic (filter (\<lambda>d. getSeverity d = Error) ds)))"
    by (rule sublist_trans)
  moreover have "sublist (concat (map render_diagnostic (filter (\<lambda>d. getSeverity d = Error) ds)))
      (pre @ (concat (map render_diagnostic (filter (\<lambda>d. getSeverity d = Error) ds)) @ post))"
    by (rule sublist_appendI)
  ultimately show ?thesis
    by (rule sublist_trans)
qed

lemma CompilerContextImpl_run_cases:
  "CompilerContextImpl_run print sched m =
     (case PassManagerSchedule_run sched m of
        None \<Rightarrow> None
      | Some (Inl f, st) \<Rightarrow> Some (Fault f, module st)
      | Some (Inr Success, st) \<Rightarrow> Some (Returned, module st)
      | Some (Inr Failure, st) \<Rightarrow>
          Some (FatalError
                  (''MLIR pipeline failed'' @ newline @
                   (concat (map render_diagnostic
                              (filter (\<lambda>d. getSeverity d = Error) (emitted st))) @
                    newline @ print (module st))),
                module st))"
  by (simp add: CompilerContextImpl_run_def fold_diag_handler failed_def Let_def
      split: option.splits sum.splits LogicalResult.splits prod.splits)

text \<open>
  Claim C4. \<^verbatim>\<open>CompilerContextImpl::run\<close> raises the fatal error exactly when the
  schedule's run returns failure. The text of the error is the banner, then, for every
  error-severity diagnostic emitted during the run, in order, its message and its
  notes (each on a new line), then a new line and the print of the module as the run
  left it; so the print of the module, the message of every error emitted and every
  note of such an error occur in the text. When the schedule's run returns success,
  the call returns normally, with the module and no text.
\<close>

theorem pipeline_failure_is_fatal:
  "((\<exists>txt m'. CompilerContextImpl_run print sched m = Some (FatalError txt, m')) =
      (\<exists>st. PassManagerSchedule_run sched m = Some (Inr Failure, st))) \<and>
   (\<forall>st. PassManagerSchedule_run sched m = Some (Inr Failure, st) \<longrightarrow>
      (\<exists>txt. CompilerContextImpl_run print sched m = Some (FatalError txt, module st) \<and>
         txt = ''MLIR pipeline failed'' @ newline @
               (concat (map render_diagnostic
                          (filter (\<lambda>d. getSeverity d = Error) (emitted st))) @
                newline @ print (module st)) \<and>
         sublist (print (module st)) txt \<and>
         (\<forall>d \<in> set (emitted st). getSeverity d = Error \<longrightarrow>
            sublist (str d) txt \<and> (\<forall>n \<in> set (getNotes d). sublist (str n) txt)))) \<and>
   (\<forall>st. PassManagerSchedule_run sched m = Some (Inr Success, st) \<longrightarrow>
      CompilerContextImpl_run print sched m = Some (Returned, module st))"
proof (intro conjI allI impI)
  show "(\<exists>txt m'. CompilerContextImpl_run print sched m = Some (FatalError txt, m')) =
      (\<exists>st. PassManagerSchedule_run sched m = Some (Inr Failure, st))"
    by (auto simp: CompilerContextImpl_run_cases
        split: option.splits sum.splits LogicalResult.splits prod.splits)
next
  fix st
  assume fails: "PassManagerSchedule_run sched m = Some (Inr Failure, st)"
  let ?errors = "concat (map render_diagnostic (filter (\<lambda>d. getSeverity d = Error) (emitted st)))"
  let ?txt = "''MLIR pipeline failed'' @ newline @ (?errors @ newline @ print (module st))"
  have raised: "CompilerContextImpl_run print sched m = Some (FatalError ?txt, module st)"
    by (simp add: CompilerContextImpl_run_cases fails)
  have dump: "sublist (print (module st)) ?txt"
  proof -
    have "?txt = (''MLIR pipeline failed'' @ newline @ ?errors @ newline) @ print (module st)"
      by simp
    then show ?thesis
      by (simp only: sublist_append_leftI)
  qed
  have errors: "sublist (str d) ?txt \<and> (\<forall>n \<in> set (getNotes d). sublist (str n) ?txt)"
    if "d \<in> set (emitted st)" and "getSeverity d = Error" for d
  proof -
    have shape: "?txt = (''MLIR pipeline failed'' @ newline) @ (?errors @ (newline @ print (module st)))"
      by simp
    have "sublist (str d) ?txt"
      unfolding shape by (rule sublist_errors [OF that sublist_render_message])
    moreover have "sublist (str n) ?txt" if "n \<in> set (getNotes d)" for n
      unfolding shape
      by (rule sublist_errors [OF \<open>d \<in> set (emitted st)\<close> \<open>getSeverity d = Error\<close>
            sublist_render_note [OF that]])
    ultimately show ?thesis
      by blast
  qed
  from raised dump errors
  show "\<exists>txt. CompilerContextImpl_run print sched m = Some (FatalError txt, module st) \<and>
         txt = ''MLIR pipeline failed'' @ newline @
               (concat (map render_diagnostic
                          (filter (\<lambda>d. getSeverity d = Error) (emitted st))) @
                newline @ print (module st)) \<and>
         sublist (print (module st)) txt \<and>
         (\<forall>d \<in> set (emitted st). getSeverity d = Error \<longrightarrow>
            sublist (str d) txt \<and> (\<forall>n \<in> set (getNotes d). sublist (str n) txt))"
    by blast
next
  fix st
  assume "PassManagerSchedule_run sched m = Some (Inr Success, st)"
  then show "CompilerContextImpl_run print sched m = Some (Returned, module st)"
    by (simp add: CompilerContextImpl_run_cases)
qed
lemma schedule0_run_fails:
  "PassManagerSchedule_run schedule0 module0 =
     Some (Inr Failure,
           \<lparr>module = \<lparr>body = 2, jump_markers = Some [''y'', ''z'']\<rparr>,
            emitted = [Diagnostic Warning ''slow'' [],
                       Diagnostic Error ''bad op'' [Diagnostic Note ''here'' []]],
            visited = [0, 2]\<rparr>)"
proof -
  have second: "loop_body schedule0 2
      \<lparr>module = \<lparr>body = 1, jump_markers = Some [''y'', ''z'']\<rparr>, emitted = [], visited = [0]\<rparr> =
     Return (Inr Failure)
       \<lparr>module = \<lparr>body = 2, jump_markers = Some [''y'', ''z'']\<rparr>,
        emitted = [Diagnostic Warning ''slow'' [],
                   Diagnostic Error ''bad op'' [Diagnostic Note ''here'' []]],
        visited = [0, 2]\<rparr>"
    by (simp add: loop_body_def Let_def failed_def schedule0_def stage0_def Stage_run_def
        PassManager_run_def PassManager_new_def pass_fail_def)
  have ne: "stages schedule0 \<noteq> []"
    by (simp add: schedule0_def)
  show ?thesis
    by (simp only: PassManagerSchedule_run_nonempty [OF ne],
        subst run_loop.simps, simp only: schedule0_first_iteration Step.case,
        subst run_loop.simps, simp only: second Step.case)
qed

lemma single_stage_run_succeeds:
  "PassManagerSchedule_run \<lparr>stages = [stage0 pass_ok [] None]\<rparr> module0 =
     Some (Inr Success,
           \<lparr>module = \<lparr>body = 1, jump_markers = None\<rparr>, emitted = [], visited = [0]\<rparr>)"
  by (simp add: PassManagerSchedule_run_def run_loop.simps [of _ 0] loop_body_def Let_def
      failed_def stage0_def Stage_run_def PassManager_run_def PassManager_new_def pass_ok_def
      module0_def get_pipeline_jump_markers_def get_jump_def get_next_stage_def)

theorem pipeline_failure_is_fatal_witness:
  "(\<exists>txt. CompilerContextImpl_run (\<lambda>m. ''module'') schedule0 module0 =
            Some (FatalError txt, \<lparr>body = 2, jump_markers = Some [''y'', ''z'']\<rparr>) \<and>
          txt = ''MLIR pipeline failed'' @ newline @ ''bad op'' @ newline @ ''here'' @
                newline @ ''module'' \<and>
          sublist ''module'' txt \<and> sublist ''bad op'' txt \<and> sublist ''here'' txt) \<and>
   CompilerContextImpl_run (\<lambda>m. ''module'') \<lparr>stages = [stage0 pass_ok [] None]\<rparr> module0 =
     Some (Returned, \<lparr>body = 1, jump_markers = None\<rparr>)"
proof (rule conjI)
  let ?st = "\<lparr>module = \<lparr>body = 2, jump_markers = Some [''y'', ''z'']\<rparr>,
            emitted = [Diagnostic Warning ''slow'' [],
                       Diagnostic Error ''bad op'' [Diagnostic Note ''here'' []]],
            visited = [0, 2]\<rparr> :: nat RunState"
  from pipeline_failure_is_fatal [of "\<lambda>m. ''module''" schedule0 module0,
         THEN conjunct2, THEN conjunct1, THEN spec, of ?st, THEN mp, OF schedule0_run_fails]
  obtain report where raised:
      "CompilerContextImpl_run (\<lambda>m. ''module'') schedule0 module0 =
         Some (FatalError report, module ?st)"
    and txt_eq: "report = ''MLIR pipeline failed'' @ newline @
               (concat (map render_diagnostic
                          (filter (\<lambda>d. getSeverity d = Error) (emitted ?st))) @
                newline @ (\<lambda>m. ''module'') (module ?st))"
    and dump: "sublist ((\<lambda>m. ''module'') (module ?st)) report"
    and errors: "\<forall>d \<in> set (emitted ?st). getSeverity d = Error \<longrightarrow>
            sublist (str d) report \<and> (\<forall>n \<in> set (getNotes d). sublist (str n) report)"
    by (elim exE conjE)
  from errors have "sublist ''bad op'' report" and "sublist ''here'' report"
    by simp_all
  moreover from txt_eq
  have "report = ''MLIR pipeline failed'' @ newline @ ''bad op'' @ newline @ ''here'' @
                newline @ ''module''"
    by (simp add: render_diagnostic_def)
  moreover from dump have "sublist ''module'' report"
    by simp
  moreover from raised
  have "CompilerContextImpl_run (\<lambda>m. ''module'') schedule0 module0 =
            Some (FatalError report, \<lparr>body = 2, jump_markers = Some [''y'', ''z'']\<rparr>)"
    by simp
  ultimately show "\<exists>report. CompilerContextImpl_run (\<lambda>m. ''module'') schedule0 module0 =
            Some (FatalError report, \<lparr>body = 2, jump_markers = Some [''y'', ''z'']\<rparr>) \<and>
          report = ''MLIR pipeline failed'' @ newline @ ''bad op'' @ newline @ ''here'' @
                newline @ ''module'' \<and>
          sublist ''module'' report \<and> sublist ''bad op'' report \<and> sublist ''here'' report"
    by (intro exI conjI)
next
  let ?st = "\<lparr>module = \<lparr>body = 1, jump_markers = None\<rparr>, emitted = [], visited = [0]\<rparr>
             :: nat RunState"
  from pipeline_failure_is_fatal
         [of "\<lambda>m. ''module''" "\<lparr>stages = [stage0 pass_ok [] None]\<rparr>" module0,
          THEN conjunct2, THEN conjunct2, THEN spec, of ?st, THEN mp,
          OF single_stage_run_succeeds]
  show "CompilerContextImpl_run (\<lambda>m. ''module'') \<lparr>stages = [stage0 pass_ok [] None]\<rparr> module0 =
     Some (Returned, \<lparr>body = 1, jump_markers = None\<rparr>)"
    by simp
qed

section \<open>Properties of the stage's configuration\<close>

lemma Checker_iff:
  "Checker names pass_name =
     (consume_front ''{anonymous}::'' (consume_front ''`anonymous-namespace'::'' pass_name)
        \<in> set names)"
  by (simp add: Checker_def Let_def)

text \<open>
  Claim C8, as the code has it. When \<^verbatim>\<open>irPrinting\<close> is supplied, the constructor of
  a stage disables multithreading on the context and requests IR printing with the two
  \<^verbatim>\<open>Checker\<close> predicates built from \<^verbatim>\<open>printBefore\<close> and \<^verbatim>\<open>printAfter\<close>, at module
  scope, after a pass only on change, not only on failure, on the configured stream; a
  \<^verbatim>\<open>Checker\<close> accepts a pass exactly when its name, less a leading anonymous-namespace
  qualifier, is one of the configured names. This request is the last one made. When
  \<^verbatim>\<open>irDumpStderr\<close> is not set it is the only one, so that IR is printed before (after)
  a pass exactly when the pass's name matches the before (after) names, and after a
  pass only on change; when \<^verbatim>\<open>irDumpStderr\<close> is set as well, that option's own request
  precedes it. \<^verbatim>\<open>irDumpStderr\<close> disables multithreading too.
\<close>

theorem ir_printing_forces_serial_filtered_printing:
  "(irPrinting settings = Some p \<longrightarrow>
      multithreading (fst (PassManagerStage_new ctx settings init_func)) = False \<and>
      printing (pm (snd (PassManagerStage_new ctx settings init_func))) =
        (if irDumpStderr settings then [IRPrintingDefault] else []) @
        [IRPrintingFiltered (Checker (printBefore p)) (Checker (printAfter p))
           True True False (out p)] \<and>
      shouldPrintBeforePass (last (printing (pm (snd (PassManagerStage_new ctx settings init_func)))))
        = Checker (printBefore p) \<and>
      shouldPrintAfterPass (last (printing (pm (snd (PassManagerStage_new ctx settings init_func)))))
        = Checker (printAfter p) \<and>
      printAfterOnlyOnChange
        (last (printing (pm (snd (PassManagerStage_new ctx settings init_func))))) = True \<and>
      printAfterOnlyOnFailure
        (last (printing (pm (snd (PassManagerStage_new ctx settings init_func))))) = False \<and>
      printer_out (last (printing (pm (snd (PassManagerStage_new ctx settings init_func)))))
        = out p \<and>
      (\<not> irDumpStderr settings \<longrightarrow>
         (\<forall>request \<in> set (printing (pm (snd (PassManagerStage_new ctx settings init_func)))).
            printAfterOnlyOnChange request = True \<and>
            (\<forall>pass_name.
               prints_before request pass_name = Checker (printBefore p) pass_name \<and>
               prints_after request pass_name = Checker (printAfter p) pass_name)))) \<and>
   (\<forall>names pass_name.
      Checker names pass_name =
        (consume_front ''{anonymous}::'' (consume_front ''`anonymous-namespace'::'' pass_name)
           \<in> set names)) \<and>
   (irDumpStderr settings \<longrightarrow>
      multithreading (fst (PassManagerStage_new ctx settings init_func)) = False)"
  by (auto simp: PassManagerStage_new_def Let_def PassManager_new_def Checker_iff
      split: option.splits)

theorem ir_printing_forces_serial_filtered_printing_witness:
  "multithreading
     (fst (PassManagerStage_new ctx0
             (settings0\<lparr>irPrinting := Some \<lparr>printBefore = [''Canonicalizer''],
                                              printAfter = [''CSE''], out = 2\<rparr>\<rparr>)
             pass_ok)) = False \<and>
   printing
     (pm (snd (PassManagerStage_new ctx0
                 (settings0\<lparr>irPrinting := Some \<lparr>printBefore = [''Canonicalizer''],
                                                  printAfter = [''CSE''], out = 2\<rparr>\<rparr>)
                 pass_ok))) =
     [IRPrintingFiltered (Checker [''Canonicalizer'']) (Checker [''CSE'']) True True False 2] \<and>
   prints_before
     (IRPrintingFiltered (Checker [''Canonicalizer'']) (Checker [''CSE'']) True True False 2)
     ''Inliner'' = Checker [''Canonicalizer''] ''Inliner'' \<and>
   prints_after
     (IRPrintingFiltered (Checker [''Canonicalizer'']) (Checker [''CSE'']) True True False 2)
     ''{anonymous}::CSE'' = Checker [''CSE''] ''{anonymous}::CSE'' \<and>
   Checker [''Canonicalizer''] ''{anonymous}::Canonicalizer'' \<and>
   \<not> Checker [''Canonicalizer''] ''Inliner'' \<and>
   printing
     (pm (snd (PassManagerStage_new ctx0
                 (settings0\<lparr>irDumpStderr := True,
                            irPrinting := Some \<lparr>printBefore = [''Canonicalizer''],
                                                  printAfter = [''CSE''], out = 2\<rparr>\<rparr>)
                 pass_ok))) =
     [IRPrintingDefault,
      IRPrintingFiltered (Checker [''Canonicalizer'']) (Checker [''CSE'']) True True False 2] \<and>
   multithreading (fst (PassManagerStage_new ctx0 (settings0\<lparr>irDumpStderr := True\<rparr>) pass_ok))
     = False"
proof -
  let ?p = "\<lparr>printBefore = [''Canonicalizer''], printAfter = [''CSE''], out = 2\<rparr>"
  let ?s = "settings0\<lparr>irPrinting := Some ?p\<rparr>"
  let ?both = "settings0\<lparr>irDumpStderr := True, irPrinting := Some ?p\<rparr>"
  let ?filtered =
    "IRPrintingFiltered (Checker [''Canonicalizer'']) (Checker [''CSE'']) True True False 2"
  have supplied: "irPrinting ?s = Some ?p"
    by simp
  have supplied_both: "irPrinting ?both = Some ?p"
    by simp
  have dump: "irDumpStderr (settings0\<lparr>irDumpStderr := True\<rparr>)"
    by simp
  have dump_both: "irDumpStderr ?both"
    by simp
  have off: "\<not> irDumpStderr ?s"
    by (simp add: settings0_def)
  note requested = ir_printing_forces_serial_filtered_printing
      [of ?s ?p ctx0 pass_ok, THEN conjunct1, THEN mp, OF supplied]
  note requested_both = ir_printing_forces_serial_filtered_printing
      [of ?both ?p ctx0 pass_ok, THEN conjunct1, THEN mp, OF supplied_both]
  note checker = ir_printing_forces_serial_filtered_printing
      [of ?s ?p ctx0 pass_ok, THEN conjunct2, THEN conjunct1, THEN spec, THEN spec]
  note serial = ir_printing_forces_serial_filtered_printing
      [of "settings0\<lparr>irDumpStderr := True\<rparr>" ?p ctx0 pass_ok, THEN conjunct2, THEN conjunct2,
       THEN mp, OF dump]
  from requested off
  have serialized: "multithreading (fst (PassManagerStage_new ctx0 ?s pass_ok)) = False"
    and requests: "printing (pm (snd (PassManagerStage_new ctx0 ?s pass_ok))) = [?filtered]"
    and only: "\<forall>request \<in> set (printing (pm (snd (PassManagerStage_new ctx0 ?s pass_ok)))).
            printAfterOnlyOnChange request = True \<and>
            (\<forall>pass_name.
               prints_before request pass_name = Checker (printBefore ?p) pass_name \<and>
               prints_after request pass_name = Checker (printAfter ?p) pass_name)"
    by simp_all
  from only requests
  have filtered: "prints_before ?filtered ''Inliner'' = Checker [''Canonicalizer''] ''Inliner''"
    "prints_after ?filtered ''{anonymous}::CSE'' = Checker [''CSE''] ''{anonymous}::CSE''"
    by simp_all
  from requested_both dump_both
  have both: "printing (pm (snd (PassManagerStage_new ctx0 ?both pass_ok))) =
                [IRPrintingDefault, ?filtered]"
    by simp
  have accepted: "Checker [''Canonicalizer''] ''{anonymous}::Canonicalizer''"
    by (simp add: checker consume_front_def)
  have refused: "\<not> Checker [''Canonicalizer''] ''Inliner''"
    by (simp add: checker consume_front_def)
  from serialized requests filtered accepted refused both serial show ?thesis
    by (intro conjI)
qed

text \<open>
  The claim as stated fails when both options are supplied. With \<^verbatim>\<open>irDumpStderr\<close> set
  and \<^verbatim>\<open>irPrinting\<close> supplied with the before names \<open>Canonicalizer\<close> and the after names
  \<open>CSE\<close>, the constructor makes two requests, the first of them with MLIR's defaults:
  IR is printed before and after the pass \<open>Inliner\<close>, whose name matches neither set.
\<close>

theorem ir_dump_adds_unfiltered_printing:
  "irPrinting (settings0\<lparr>irDumpStderr := True,
                         irPrinting := Some \<lparr>printBefore = [''Canonicalizer''],
                                               printAfter = [''CSE''], out = 2\<rparr>\<rparr>) =
     Some \<lparr>printBefore = [''Canonicalizer''], printAfter = [''CSE''], out = 2\<rparr> \<and>
   printing
     (pm (snd (PassManagerStage_new ctx0
                 (settings0\<lparr>irDumpStderr := True,
                            irPrinting := Some \<lparr>printBefore = [''Canonicalizer''],
                                                  printAfter = [''CSE''], out = 2\<rparr>\<rparr>)
                 pass_ok))) =
     [IRPrintingDefault,
      IRPrintingFiltered (Checker [''Canonicalizer'']) (Checker [''CSE'']) True True False 2] \<and>
   prints_before
     (hd (printing
            (pm (snd (PassManagerStage_new ctx0
                        (settings0\<lparr>irDumpStderr := True,
                                   irPrinting := Some \<lparr>printBefore = [''Canonicalizer''],
                                                         printAfter = [''CSE''], out = 2\<rparr>\<rparr>)
                        pass_ok)))))
     ''Inliner'' \<and>
   prints_after
     (hd (printing
            (pm (snd (PassManagerStage_new ctx0
                        (settings0\<lparr>irDumpStderr := True,
                                   irPrinting := Some \<lparr>printBefore = [''Canonicalizer''],
                                                         printAfter = [''CSE''], out = 2\<rparr>\<rparr>)
                        pass_ok)))))
     ''Inliner'' \<and>
   \<not> Checker [''Canonicalizer''] ''Inliner'' \<and>
   \<not> Checker [''CSE''] ''Inliner''"
  by (simp add: PassManagerStage_new_def Let_def PassManager_new_def Checker_iff
      consume_front_def settings0_def)

end
